theory Spec2Isabelle
  imports Complex_Main "HOL-Library.Sublist"
begin

section \<open>Data model\<close>

text \<open>
  A cell of a pandas table. The two missing-value sentinels of the library
  (\<open>numpy.nan\<close> and \<open>pandas.NA\<close>) and Python's \<open>None\<close> are kept apart,
  since the writer's normalisation is about exactly the difference between them.
\<close>

datatype cell = PyNone | NaN | NA | StrV string | IntV int | FloatV real | BoolV bool

text \<open>
  A \<open>DataFrame\<close>: column labels and the rows under them, row-major.
\<close>

record table =
  columns :: "string list"
  rows :: "cell list list"

text \<open>A row-record, as \<open>to_dict(orient='records')\<close> yields it: column name to value.\<close>

type_synonym rowrec = "(string \<times> cell) list"

text \<open>The exceptions \<open>requests\<close> raises: a transport failure, or
  \<open>raise_for_status\<close> on a 4xx or 5xx status.\<close>

datatype request_exception = ConnectionError string | HTTPError nat

text \<open>
  What \<open>zipfile\<close> raises, from \<open>ZipFile(...)\<close> or from \<open>open\<close>: \<open>BadZipFile\<close>, for
  which the fetcher has an \<open>except\<close> clause; \<open>KeyError\<close> for a name the archive
  does not list; or another exception, for which it has none (\<open>RuntimeError\<close> for
  an encrypted member, \<open>NotImplementedError\<close> for a compression method or a
  version the library does not support, \<open>UnicodeDecodeError\<close> for a member name
  that does not decode).
\<close>

datatype zip_exn = BadZipFile | KeyError string | ZipRaised string

text \<open>
  A member of the archive, and the handle \<open>ZipFile.open\<close> gives for it;
  \<open>open_raises\<close> is what opening this member raises, if anything.
\<close>

record member =
  filename :: string
  content :: string
  open_raises :: "zip_exn option"

text \<open>
  Every \<open>print\<close> of the source is one constructor, its interpolated values
  the arguments.
\<close>

datatype msg =
    MsgConfigError
  | MsgDownloading string
  | MsgFound string
  | MsgNoFiles
  | MsgDownloadError request_exception
  | MsgBadZip
  | MsgNoFilesFinish
  | MsgCombining
  | MsgCombined nat
  | MsgEmpty
  | MsgPreparing
  | MsgUploading nat nat nat
  | MsgBatchOk nat
  | MsgAllOk
  | MsgUploadError string
  | MsgFinished

text \<open>What one \<open>.upsert(...).execute()\<close> call did: it raised, or it returned a
  response whose \<open>data\<close> is truthy or not.\<close>

datatype reply = Raised string | Returned bool

text \<open>The observable effects of a run, in the order they happen.\<close>

datatype event =
    Print msg
  | HttpGet string
  | ReadCsv string
  | CreateClient string string
  | Upsert string string "rowrec list" reply
  | Sleep nat

text \<open>Exceptions that no \<open>except\<close> clause of the source catches.\<close>

datatype uncaught = ZipError zip_exn | CsvError string | ClientError string

text \<open>How the process ends. \<open>exit()\<close> raises \<open>SystemExit\<close> with the code it is given.\<close>

datatype outcome = Completed | SystemExit "int option" | Traceback uncaught

text \<open>The interpreter's exit status: 0 after a normal end and after
  \<open>SystemExit(None)\<close>, the code after \<open>SystemExit(code)\<close>, 1 after an uncaught
  exception.\<close>

fun exit_status :: "outcome \<Rightarrow> int" where
  "exit_status Completed = 0"
| "exit_status (SystemExit None) = 0"
| "exit_status (SystemExit (Some n)) = n"
| "exit_status (Traceback x) = 1"

datatype http_result = RequestFailed string | Response nat string

text \<open>
  The remote store is outside the program: a state of any type \<open>'st\<close> and the
  function that an upsert call is, from the state, the table name, the
  \<open>on_conflict\<close> argument and the batch to the new state and the reply.
\<close>

type_synonym 'st upsert_fn = "'st \<Rightarrow> string \<Rightarrow> string \<Rightarrow> rowrec list \<Rightarrow> 'st \<times> reply"

text \<open>
  Everything the run reads from outside: the environment after \<open>load_dotenv()\<close>,
  the HTTP server, the archive and CSV decoders of the libraries, which of the
  columns of a concatenation \<open>pandas\<close> gives the dtype \<open>float64\<close>, the client
  constructor, which raises on a URL or key it does not accept, and the remote
  store behind the client.
\<close>

record 'st world =
  env_url :: "string option"
  env_key :: "string option"
  http_get :: "string \<Rightarrow> http_result"
  zip_parse :: "string \<Rightarrow> zip_exn + member list"
  read_csv :: "string \<Rightarrow> string + table"
  concat_float64 :: "table list \<Rightarrow> string \<Rightarrow> bool"
  create_client :: "string \<Rightarrow> string \<Rightarrow> string + 'st"
  upsert :: "'st upsert_fn"

text \<open>
  Objects live in a store; a reference is an index into it. \<open>df.replace\<close>
  without \<open>inplace\<close> allocates a new table and leaves the old one alone.
\<close>

type_synonym heap = "table list"
type_synonym ref = nat

definition alloc :: "heap \<Rightarrow> table \<Rightarrow> heap \<times> ref" where
  "alloc h t = (h @ [t], length h)"

section \<open>Sync Writer\<close>

text \<open>\<open>df.empty\<close>: some axis has length 0.\<close>

definition df_empty :: "table \<Rightarrow> bool" where
  "df_empty df = (columns df = [] \<or> rows df = [])"

text \<open>The dictionary given to \<open>df.replace\<close>: \<open>{pd.NA: None, np.nan: None}\<close>.\<close>

definition null_mapping :: "(cell \<times> cell) list" where
  "null_mapping = [(NA, PyNone), (NaN, PyNone)]"

definition replace_cell :: "(cell \<times> cell) list \<Rightarrow> cell \<Rightarrow> cell" where
  "replace_cell m c = (case map_of m c of Some v \<Rightarrow> v | None \<Rightarrow> c)"

definition replace_table :: "(cell \<times> cell) list \<Rightarrow> table \<Rightarrow> table" where
  "replace_table m df = df\<lparr>rows := map (map (replace_cell m)) (rows df)\<rparr>"

definition df_replace :: "heap \<Rightarrow> ref \<Rightarrow> (cell \<times> cell) list \<Rightarrow> heap \<times> ref" where
  "df_replace h p m = alloc h (replace_table m (h ! p))"

definition to_dict_records :: "table \<Rightarrow> rowrec list" where
  "to_dict_records df = map (\<lambda>r. zip (columns df) r) (rows df)"

definition batch_size :: nat where
  "batch_size = 500"

definition table_name :: string where
  "table_name = ''dsld_supplements''"

definition on_conflict :: string where
  "on_conflict = [CHR 0x22] @ ''DSLD ID'' @ [CHR 0x22]"

text \<open>
  The loop \<open>for i in range(0, total_records, batch_size)\<close>, from index \<open>i\<close>.
  An exception of the upsert call leaves the loop at once; the result carries
  it to the \<open>except\<close> clause of the caller.
\<close>

function upload_loop ::
  "'st upsert_fn \<Rightarrow> 'st \<Rightarrow> rowrec list \<Rightarrow> nat \<Rightarrow> 'st \<times> event list \<times> string option" where
  "upload_loop ups s records i =
     (if i < length records then
        (let batch = take batch_size (drop i records);
             ev = Print (MsgUploading (i div batch_size + 1)
                    ((length records + batch_size - 1) div batch_size) (length batch))
         in case ups s table_name on_conflict batch of
              (s1, Raised e) \<Rightarrow>
                (s1, [ev, Upsert table_name on_conflict batch (Raised e)], Some e)
            | (s1, Returned d) \<Rightarrow>
                (case upload_loop ups s1 records (i + batch_size) of
                   (s2, evs, r) \<Rightarrow>
                     (s2,
                      [ev, Upsert table_name on_conflict batch (Returned d)]
                        @ (if d then [Print (MsgBatchOk (i div batch_size + 1))] else [])
                        @ [Sleep 1] @ evs,
                      r)))
      else (s, [], None))"
  by pat_completeness auto
termination
  by (relation "measure (\<lambda>(ups, s, records, i). length records - i)")
     (auto simp: batch_size_def)

text \<open>
  \<open>upload_dataframe_to_supabase(df, supabase_client)\<close>: the table is the
  object at \<open>df\<close> in the store; the result is the store, the remote state and
  the effects. The function returns normally on every path.
\<close>

definition upload_dataframe_to_supabase ::
  "heap \<Rightarrow> ref \<Rightarrow> 'st upsert_fn \<Rightarrow> 'st \<Rightarrow> heap \<times> 'st \<times> event list" where
  "upload_dataframe_to_supabase h df ups s =
     (if df_empty (h ! df) then (h, s, [Print MsgEmpty])
      else
        (case df_replace h df null_mapping of
           (h1, df_cleaned) \<Rightarrow>
             (let records = to_dict_records (h1 ! df_cleaned)
              in case upload_loop ups s records 0 of
                   (s1, evs, None) \<Rightarrow> (h1, s1, [Print MsgPreparing] @ evs @ [Print MsgAllOk])
                 | (s1, evs, Some e) \<Rightarrow>
                     (h1, s1, [Print MsgPreparing] @ evs @ [Print (MsgUploadError e)]))))"

text \<open>The batches of the upsert calls of a trace, and their replies.\<close>

fun upsert_calls :: "event list \<Rightarrow> rowrec list list" where
  "upsert_calls [] = []"
| "upsert_calls (Upsert t c b r # evs) = b # upsert_calls evs"
| "upsert_calls (_ # evs) = upsert_calls evs"

fun upsert_replies :: "event list \<Rightarrow> reply list" where
  "upsert_replies [] = []"
| "upsert_replies (Upsert t c b r # evs) = r # upsert_replies evs"
| "upsert_replies (_ # evs) = upsert_replies evs"

text \<open>The slices \<open>records[i:i + batch_size]\<close> that the loop takes from index \<open>i\<close> on.\<close>

function batches_from :: "'a list \<Rightarrow> nat \<Rightarrow> 'a list list" where
  "batches_from records i =
     (if i < length records
      then take batch_size (drop i records) # batches_from records (i + batch_size)
      else [])"
  by pat_completeness auto
termination
  by (relation "measure (\<lambda>(records, i). length records - i)") (auto simp: batch_size_def)

section \<open>Archive Fetcher\<close>

definition DOWNLOAD_URL :: string where
  "DOWNLOAD_URL = ''https://api.ods.od.nih.gov/dsld/s3/data/DSLD-full-database-CSV.zip''"

definition TARGET_FILENAME_CONTAINS :: string where
  "TARGET_FILENAME_CONTAINS = ''ProductOverview''"

text \<open>The test of line 43: \<open>TARGET_FILENAME_CONTAINS in name and name.endswith('.csv')\<close>.\<close>

definition is_target :: "string \<Rightarrow> bool" where
  "is_target name = (sublist TARGET_FILENAME_CONTAINS name \<and> suffix ''.csv'' name)"

text \<open>
  \<open>zip_file.open(name)\<close> looks the name up in the archive's name table, where a
  later member of the same name has replaced an earlier one; an unknown name is
  a \<open>KeyError\<close>. Opening the member found can itself raise.
\<close>

definition zip_open :: "member list \<Rightarrow> string \<Rightarrow> zip_exn + member" where
  "zip_open zf name =
     (case find (\<lambda>m. filename m = name) (rev zf) of
        None \<Rightarrow> Inl (KeyError name)
      | Some m \<Rightarrow> (case open_raises m of Some x \<Rightarrow> Inl x | None \<Rightarrow> Inr m))"

fun scan_members ::
  "member list \<Rightarrow> member list \<Rightarrow> event list \<times> member list \<Rightarrow>
   event list \<times> (zip_exn + member list)" where
  "scan_members zf [] (evs, csv_files) = (evs, Inr csv_files)"
| "scan_members zf (file_info # rest) (evs, csv_files) =
     (if is_target (filename file_info) then
        (case zip_open zf (filename file_info) of
           Inl x \<Rightarrow> (evs @ [Print (MsgFound (filename file_info))], Inl x)
         | Inr f \<Rightarrow>
             scan_members zf rest
               (evs @ [Print (MsgFound (filename file_info))], csv_files @ [f]))
      else scan_members zf rest (evs, csv_files))"

definition raise_for_status :: "nat \<Rightarrow> bool" where
  "raise_for_status status = (400 \<le> status \<and> status < 600)"

definition download_and_unzip_data ::
  "'st world \<Rightarrow> string \<Rightarrow> event list \<times> (uncaught + member list)" where
  "download_and_unzip_data w url =
     (let pre = [Print (MsgDownloading url), HttpGet url] in
      case http_get w url of
        RequestFailed e \<Rightarrow> (pre @ [Print (MsgDownloadError (ConnectionError e))], Inr [])
      | Response status body \<Rightarrow>
          if raise_for_status status
          then (pre @ [Print (MsgDownloadError (HTTPError status))], Inr [])
          else
            (case zip_parse w body of
               Inl x \<Rightarrow>
                 if x = BadZipFile then (pre @ [Print MsgBadZip], Inr [])
                 else (pre, Inl (ZipError x))
             | Inr zf \<Rightarrow>
                 (case scan_members zf zf ([], []) of
                    (evs, Inl x) \<Rightarrow>
                      if x = BadZipFile then (pre @ evs @ [Print MsgBadZip], Inr [])
                      else (pre @ evs, Inl (ZipError x))
                  | (evs, Inr csv_files) \<Rightarrow>
                      if csv_files = [] then (pre @ evs @ [Print MsgNoFiles], Inr [])
                      else (pre @ evs, Inr csv_files))))"

section \<open>Table Builder\<close>

text \<open>The list comprehension of line 73; an exception of \<open>pd.read_csv\<close> is not
  caught anywhere.\<close>

fun read_all ::
  "(string \<Rightarrow> string + table) \<Rightarrow> member list \<Rightarrow> event list \<times> (uncaught + table list)" where
  "read_all rc [] = ([], Inr [])"
| "read_all rc (f # fs) =
     (case rc (content f) of
        Inl e \<Rightarrow> ([ReadCsv (filename f)], Inl (CsvError e))
      | Inr df \<Rightarrow>
          (case read_all rc fs of
             (evs, Inl x) \<Rightarrow> (ReadCsv (filename f) # evs, Inl x)
           | (evs, Inr dfs) \<Rightarrow> (ReadCsv (filename f) # evs, Inr (df # dfs))))"

text \<open>
  The conversion of an integer to \<open>float64\<close>: the nearest number with 53
  significant bits, a tie going to the even one.
\<close>

fun bit_length :: "nat \<Rightarrow> nat" where
  "bit_length n = (if n = 0 then 0 else Suc (bit_length (n div 2)))"

definition float64_of_nat :: "nat \<Rightarrow> nat" where
  "float64_of_nat m =
     (let e = bit_length m - 53; q = m div 2 ^ e; r = m mod 2 ^ e
      in if 2 ^ e < 2 * r \<or> (2 * r = 2 ^ e \<and> odd q) then (q + 1) * 2 ^ e else q * 2 ^ e)"

definition to_float64 :: "int \<Rightarrow> real" where
  "to_float64 n =
     (if n < 0 then - real (float64_of_nat (nat (- n))) else real (float64_of_nat (nat n)))"

text \<open>
  A cell of a column whose dtype becomes \<open>float64\<close>: an integer is converted,
  a float and \<open>NaN\<close> stay. In a column of any other dtype every cell stays.
\<close>

definition cast_cell :: "bool \<Rightarrow> cell \<Rightarrow> cell" where
  "cast_cell to_float c =
     (if to_float then (case c of IntV n \<Rightarrow> FloatV (to_float64 n) | _ \<Rightarrow> c) else c)"

definition astype_row :: "(string \<Rightarrow> bool) \<Rightarrow> string list \<Rightarrow> cell list \<Rightarrow> cell list" where
  "astype_row float_column cols r = map (\<lambda>(c, v). cast_cell (float_column c) v) (zip cols r)"

text \<open>
  \<open>pd.concat(dataframes, ignore_index=True)\<close>: the columns are the union of the
  frames' columns in order of first appearance, every row is kept, aligned to
  them by name, and a cell whose column the row's frame lacks is \<open>NaN\<close>. Every
  column then has one dtype for all the frames; \<open>float_column\<close> tells which
  columns come out as \<open>float64\<close>, where the integers of a frame that had the
  column as \<open>int64\<close> are converted.
\<close>

definition union_columns :: "table list \<Rightarrow> string list" where
  "union_columns dfs =
     foldl (\<lambda>acc df. acc @ filter (\<lambda>c. c \<notin> set acc) (columns df)) [] dfs"

definition reindex_row :: "string list \<Rightarrow> string list \<Rightarrow> cell list \<Rightarrow> cell list" where
  "reindex_row old new r =
     map (\<lambda>c. case map_of (zip old r) c of Some v \<Rightarrow> v | None \<Rightarrow> NaN) new"

definition pd_concat :: "(string \<Rightarrow> bool) \<Rightarrow> table list \<Rightarrow> table" where
  "pd_concat float_column dfs =
     \<lparr>columns = union_columns dfs,
      rows = concat (map (\<lambda>df.
               map (\<lambda>r. astype_row float_column (union_columns dfs)
                          (reindex_row (columns df) (union_columns dfs) r))
                   (rows df)) dfs)\<rparr>"

definition column_mapping :: "(string \<times> string) list" where
  "column_mapping =
     [(''URL'', ''URL''),
      (''DSLD ID'', ''DSLD ID''),
      (''Product Name'', ''Product Name''),
      (''Brand Name'', ''Brand Name''),
      (''Bar Code'', ''Bar Code''),
      (''Net Contents'', ''Net Contents''),
      (''Serving Size'', ''Serving Size''),
      (''Product Type [LanguaL]'', ''Product Type [LanguaL]''),
      (''Supplement Form [LanguaL]'', ''Supplement Form [LanguaL]''),
      (''Date Entered into DSLD'', ''Date Entered into DSLD''),
      (''Market Status'', ''Market Status''),
      (''Suggested Use'', ''Suggested Use'')]"

definition rename_columns :: "(string \<times> string) list \<Rightarrow> table \<Rightarrow> table" where
  "rename_columns m df =
     df\<lparr>columns := map (\<lambda>c. case map_of m c of Some c' \<Rightarrow> c' | None \<Rightarrow> c) (columns df)\<rparr>"

text \<open>
  \<open>combine_csvs_to_dataframe\<close>. The rename is in place, on the table that
  \<open>pd.concat\<close> has just created and nothing else refers to.
\<close>

definition combine_csvs_to_dataframe ::
  "'st world \<Rightarrow> member list \<Rightarrow> event list \<times> (uncaught + table)" where
  "combine_csvs_to_dataframe w csv_files =
     (if csv_files = [] then ([], Inr \<lparr>columns = [], rows = []\<rparr>)
      else
        (case read_all (read_csv w) csv_files of
           (evs, Inl x) \<Rightarrow> (Print MsgCombining # evs, Inl x)
         | (evs, Inr dataframes) \<Rightarrow>
             (let combined_df = rename_columns column_mapping (pd_concat (concat_float64 w dataframes) dataframes)
              in (Print MsgCombining # evs @ [Print (MsgCombined (length (rows combined_df)))],
                  Inr combined_df))))"

section \<open>Orchestrator\<close>

text \<open>
  \<open>main()\<close>. Nothing in it catches an exception: one that the fetcher or the
  builder lets through, or that \<open>create_client\<close> raises, ends the run with a
  traceback.
\<close>

definition main :: "'st world \<Rightarrow> string \<Rightarrow> string \<Rightarrow> event list \<times> outcome" where
  "main w SUPABASE_URL SUPABASE_KEY =
     (case download_and_unzip_data w DOWNLOAD_URL of
        (evs1, Inl x) \<Rightarrow> (evs1, Traceback x)
      | (evs1, Inr csv_file_objects) \<Rightarrow>
          if csv_file_objects = [] then (evs1 @ [Print MsgNoFilesFinish], Completed)
          else
            (case combine_csvs_to_dataframe w csv_file_objects of
               (evs2, Inl x) \<Rightarrow> (evs1 @ evs2, Traceback x)
             | (evs2, Inr product_dataframe) \<Rightarrow>
                 (case create_client w SUPABASE_URL SUPABASE_KEY of
                    Inl e \<Rightarrow>
                      (evs1 @ evs2 @ [CreateClient SUPABASE_URL SUPABASE_KEY],
                       Traceback (ClientError e))
                  | Inr supabase_client \<Rightarrow>
                      (case alloc [] product_dataframe of
                         (h, df) \<Rightarrow>
                           (case upload_dataframe_to_supabase h df (upsert w) supabase_client of
                              (h1, s1, evs3) \<Rightarrow>
                                (evs1 @ evs2 @ [CreateClient SUPABASE_URL SUPABASE_KEY] @ evs3
                                   @ [Print MsgFinished],
                                 Completed))))))"

text \<open>
  The module, run as a script: the guard of lines 22 to 24, then \<open>main()\<close>.
  \<open>not x\<close> holds of \<open>None\<close> and of the empty string.
\<close>

definition program :: "'st world \<Rightarrow> event list \<times> outcome" where
  "program w =
     (case (env_url w, env_key w) of
        (Some url, Some key) \<Rightarrow>
          if url = [] \<or> key = [] then ([Print MsgConfigError], SystemExit None)
          else main w url key
      | _ \<Rightarrow> ([Print MsgConfigError], SystemExit None))"

text \<open>The events of a run that reach outside the process or read data.\<close>

fun is_work :: "event \<Rightarrow> bool" where
  "is_work (Print m) = False"
| "is_work _ = True"

section \<open>The destination table\<close>

text \<open>
  Modelled from the spec: the remote store's upsert, which is the service behind
  the client and no code of the repository. The store holds the rows of each
  named table; an upsert with conflict resolution on a column overwrites in
  place the row whose value in that column the incoming row has, and inserts
  the incoming row at the end when there is none.
\<close>

type_synonym store = "string \<Rightarrow> rowrec list"

text \<open>Modelled from the spec: the column that the \<open>on_conflict\<close> argument names, which
  the service reads without the double quotes around it.\<close>

definition conflict_column :: "string \<Rightarrow> string" where
  "conflict_column c = filter (\<lambda>x. x \<noteq> CHR 0x22) c"

text \<open>Modelled from the spec: one incoming row. A row whose ID is already in the
  destination overwrites that row in place; a row with a new ID is inserted.\<close>

definition upsert_row :: "string \<Rightarrow> rowrec list \<Rightarrow> rowrec \<Rightarrow> rowrec list" where
  "upsert_row key dest r =
     (if map_of r key \<in> set (map (\<lambda>x. map_of x key) dest)
      then map (\<lambda>x. if map_of x key = map_of r key then r else x) dest
      else dest @ [r])"

text \<open>Modelled from the spec: one upsert call, the rows of the batch in their order,
  on the named table; the call returns the rows it wrote.\<close>

definition store_upsert :: "store upsert_fn" where
  "store_upsert s t c batch =
     (s(t := foldl (upsert_row (conflict_column c)) (s t) batch), Returned (batch \<noteq> []))"

section \<open>Batching\<close>

declare upload_loop.simps [simp del] batches_from.simps [simp del]

lemma batch_size_pos: "0 < batch_size" by (simp add: batch_size_def)

lemma concat_batches_from: "concat (batches_from records i) = drop i records"
proof (induction records i rule: batches_from.induct)
  case (1 records i)
  show ?case
  proof (cases "i < length records")
    case True
    have "concat (batches_from records i) = take batch_size (drop i records) @ drop (i + batch_size) records"
      using True 1 by (subst batches_from.simps) simp
    also have "\<dots> = drop i records"
      by (metis add.commute append_take_drop_id drop_drop)
    finally show ?thesis .
  next
    case False
    then show ?thesis by (subst batches_from.simps) simp
  qed
qed

lemma ceil_step:
  fixes n B :: nat
  assumes "0 < B" "0 < n"
  shows "(n + B - 1) div B = Suc ((n - B + B - 1) div B)"
proof (cases "B \<le> n")
  case True
  then have "n + B - 1 = (n - B + B - 1) + B" using assms by simp
  then show ?thesis using assms by (metis div_add_self2 less_numeral_extra(3) Suc_eq_plus1)
next
  case False
  then have "n - B + B - 1 < B" using assms by simp
  then have z: "(n - B + B - 1) div B = 0" by simp
  have "n + B - 1 = (n - 1) + B" using assms by simp
  moreover have "(n - 1) div B = 0" using False assms by simp
  ultimately have "(n + B - 1) div B = 1" using assms
    by (metis div_add_self2 less_numeral_extra(3) add_0)
  with z show ?thesis by simp
qed

lemma length_batches_from:
  "length (batches_from records i) = (length records - i + batch_size - 1) div batch_size"
proof (induction records i rule: batches_from.induct)
  case (1 records i)
  show ?case
  proof (cases "i < length records")
    case True
    have "length (batches_from records i) = Suc ((length records - (i + batch_size) + batch_size - 1) div batch_size)"
      using True 1 by (subst batches_from.simps) simp
    also have "length records - (i + batch_size) = length records - i - batch_size" by simp
    also have "Suc ((length records - i - batch_size + batch_size - 1) div batch_size) = (length records - i + batch_size - 1) div batch_size"
      using ceil_step[of batch_size "length records - i"] True batch_size_pos by simp
    finally show ?thesis .
  next
    case False
    then show ?thesis using batch_size_pos by (subst batches_from.simps) simp
  qed
qed

lemma nth_batches_from:
  "k < length (batches_from records i) \<Longrightarrow>
   batches_from records i ! k = take batch_size (drop (i + batch_size * k) records)"
proof (induction records i arbitrary: k rule: batches_from.induct)
  case (1 records i)
  show ?case
  proof (cases "i < length records")
    case True
    then have eq: "batches_from records i = take batch_size (drop i records) # batches_from records (i + batch_size)"
      by (subst batches_from.simps) simp
    show ?thesis
    proof (cases k)
      case 0
      then show ?thesis using eq by simp
    next
      case (Suc j)
      with "1.prems" eq have "j < length (batches_from records (i + batch_size))" by simp
      from "1.IH"[OF True this] show ?thesis using eq Suc by (simp add: add.assoc)
    qed
  next
    case False
    then have "batches_from records i = []" by (subst batches_from.simps) simp
    with "1.prems" show ?thesis by simp
  qed
qed

lemma upload_loop_calls:
  "upload_loop ups s records i = (s', evs, r) \<Longrightarrow>
   prefix (upsert_calls evs) (batches_from records i) \<and>
   (r = None \<longrightarrow> upsert_calls evs = batches_from records i)"
proof (induction ups s records i arbitrary: s' evs r rule: upload_loop.induct)
  case (1 ups s records i)
  show ?case
  proof (cases "i < length records")
    case False
    with "1.prems" have "evs = []" "r = None"
      by (subst (asm) upload_loop.simps, simp)+
    moreover from False have "batches_from records i = []" by (subst batches_from.simps) simp
    ultimately show ?thesis by simp
  next
    case True
    define batch where "batch = take batch_size (drop i records)"
    have bf: "batches_from records i = batch # batches_from records (i + batch_size)"
      using True by (subst batches_from.simps) (simp add: batch_def)
    obtain s1 rep where u: "ups s table_name on_conflict batch = (s1, rep)"
      by (cases "ups s table_name on_conflict batch")
    show ?thesis
    proof (cases rep)
      case (Raised e)
      with "1.prems" True u have "evs = [Print (MsgUploading (i div batch_size + 1)
                    ((length records + batch_size - 1) div batch_size) (length batch)), Upsert table_name on_conflict batch (Raised e)]" "r = Some e"
        by (subst (asm) upload_loop.simps, simp add: batch_def Let_def)+
      then show ?thesis using bf by simp
    next
      case (Returned d)
      obtain s2 evs2 r2 where rec: "upload_loop ups s1 records (i + batch_size) = (s2, evs2, r2)"
        by (cases "upload_loop ups s1 records (i + batch_size)")
      from "1.prems" True u Returned rec have
        "evs = [Print (MsgUploading (i div batch_size + 1)
                    ((length records + batch_size - 1) div batch_size) (length batch)), Upsert table_name on_conflict batch (Returned d)]
                        @ (if d then [Print (MsgBatchOk (i div batch_size + 1))] else [])
                        @ [Sleep 1] @ evs2" "r = r2"
        by (subst (asm) upload_loop.simps, simp add: batch_def Let_def)+
      moreover have "prefix (upsert_calls evs2) (batches_from records (i + batch_size)) \<and>
         (r2 = None \<longrightarrow> upsert_calls evs2 = batches_from records (i + batch_size))"
        using "1.IH"[OF True batch_def refl _ _ rec] u Returned
        by (simp add: batch_def)
      ultimately show ?thesis using bf by simp
    qed
  qed
qed

lemma ceil_div_nat:
  fixes n B :: nat
  assumes "0 < B"
  shows "nat \<lceil>real n / real B\<rceil> = (n + B - 1) div B"
proof (cases "n = 0")
  case True
  then show ?thesis using assms by simp
next
  case False
  define q where "q = (n + B - 1) div B"
  have lo: "q * B \<le> n + B - 1"
    unfolding q_def by simp
  have hi: "n + B - 1 < q * B + B"
    unfolding q_def using assms by (metis dividend_less_div_times add.commute)
  from False assms hi have "0 < q" by (cases q) auto
  then obtain p where p: "q = Suc p" by (cases q) auto
  from lo p False have a: "p * B < n" by simp
  from hi False have b: "n \<le> q * B" by simp
  have "real p < real n / real B"
    using a assms by (simp add: pos_less_divide_eq flip: of_nat_mult)
  then have 1: "of_int (int q) - 1 < real n / real B" using p by simp
  have "real n / real B \<le> real q"
    using b assms by (simp add: pos_divide_le_eq flip: of_nat_mult)
  then have 2: "real n / real B \<le> of_int (int q)" by simp
  have "\<lceil>real n / real B\<rceil> = int q"
    using 1 2 by (rule ceiling_unique)
  then show ?thesis by (simp add: q_def)
qed

lemma length_upsert_replies: "length (upsert_replies evs) = length (upsert_calls evs)"
  by (induction evs rule: upsert_calls.induct) auto

lemma upsert_calls_append: "upsert_calls (xs @ ys) = upsert_calls xs @ upsert_calls ys"
  by (induction xs rule: upsert_calls.induct) auto

lemma upsert_replies_append: "upsert_replies (xs @ ys) = upsert_replies xs @ upsert_replies ys"
  by (induction xs rule: upsert_replies.induct) auto

lemma upload_loop_replies:
  "upload_loop ups s records i = (s', evs, r) \<Longrightarrow>
   (case r of None \<Rightarrow> (\<forall>x \<in> set (upsert_replies evs). \<exists>d. x = Returned d)
            | Some e \<Rightarrow> upsert_replies evs \<noteq> [] \<and> last (upsert_replies evs) = Raised e
                 \<and> (\<forall>x \<in> set (butlast (upsert_replies evs)). \<exists>d. x = Returned d)
                 \<and> last evs = Upsert table_name on_conflict (last (upsert_calls evs)) (Raised e))"
proof (induction ups s records i arbitrary: s' evs r rule: upload_loop.induct)
  case (1 ups s records i)
  show ?case
  proof (cases "i < length records")
    case False
    with "1.prems" have "evs = []" "r = None"
      by (subst (asm) upload_loop.simps, simp)+
    then show ?thesis by simp
  next
    case True
    define batch where "batch = take batch_size (drop i records)"
    obtain s1 rep where u: "ups s table_name on_conflict batch = (s1, rep)"
      by (cases "ups s table_name on_conflict batch")
    show ?thesis
    proof (cases rep)
      case (Raised e)
      with "1.prems" True u have "evs = [Print (MsgUploading (i div batch_size + 1)
                    ((length records + batch_size - 1) div batch_size) (length batch)), Upsert table_name on_conflict batch (Raised e)]" "r = Some e"
        by (subst (asm) upload_loop.simps, simp add: batch_def Let_def)+
      then show ?thesis by simp
    next
      case (Returned d)
      obtain s2 evs2 r2 where rec: "upload_loop ups s1 records (i + batch_size) = (s2, evs2, r2)"
        by (cases "upload_loop ups s1 records (i + batch_size)")
      from "1.prems" True u Returned rec have ev:
        "evs = [Print (MsgUploading (i div batch_size + 1)
                    ((length records + batch_size - 1) div batch_size) (length batch)), Upsert table_name on_conflict batch (Returned d)]
                        @ (if d then [Print (MsgBatchOk (i div batch_size + 1))] else [])
                        @ [Sleep 1] @ evs2" and r: "r = r2"
        by (subst (asm) upload_loop.simps, simp add: batch_def Let_def)+
      have ih: "(case r2 of None \<Rightarrow> (\<forall>x \<in> set (upsert_replies evs2). \<exists>d. x = Returned d)
            | Some e \<Rightarrow> upsert_replies evs2 \<noteq> [] \<and> last (upsert_replies evs2) = Raised e
                 \<and> (\<forall>x \<in> set (butlast (upsert_replies evs2)). \<exists>d. x = Returned d)
                 \<and> last evs2 = Upsert table_name on_conflict (last (upsert_calls evs2)) (Raised e))"
        using "1.IH"[OF True batch_def refl _ _ rec] u Returned
        by (simp add: batch_def)
      show ?thesis
      proof (cases r2)
        case None
        with ih ev r show ?thesis by auto
      next
        case (Some e)
        with ih have ne: "upsert_replies evs2 \<noteq> []" by simp
        then have ne2: "evs2 \<noteq> []" "upsert_calls evs2 \<noteq> []"
          using length_upsert_replies[of evs2] by auto
        show ?thesis using ih ev r Some ne ne2 by auto
      qed
    qed
  qed
qed


lemma writer_nonempty:
  assumes "\<not> df_empty (h ! df)"
    and "upload_loop ups s (to_dict_records (replace_table null_mapping (h ! df))) 0 = (s1, evs, r)"
  shows "upload_dataframe_to_supabase h df ups s =
           (h @ [replace_table null_mapping (h ! df)], s1,
            [Print MsgPreparing] @ evs
              @ [Print (case r of None \<Rightarrow> MsgAllOk | Some e \<Rightarrow> MsgUploadError e)])"
  using assms
  by (simp add: upload_dataframe_to_supabase_def df_replace_def alloc_def split: option.splits)

lemma writer_empty:
  "df_empty (h ! df) \<Longrightarrow> upload_dataframe_to_supabase h df ups s = (h, s, [Print MsgEmpty])"
  by (simp add: upload_dataframe_to_supabase_def)

lemma length_to_dict_records:
  "length (to_dict_records (replace_table m df)) = length (rows df)"
  by (simp add: to_dict_records_def replace_table_def)

lemma prefix_concat: "prefix xs ys \<Longrightarrow> prefix (concat xs) (concat ys)"
  by (auto simp: prefix_def)

text \<open>
  C1: for a table that is not empty, with \<open>R\<close> rows, the \<open>k\<close>-th upsert call of
  the writer carries the contiguous slice of the record sequence that starts at
  \<open>500 * k\<close>, so the calls go through the records in ascending order, and every
  call but the last carries exactly 500 records. In a run where every upsert
  call returns there are exactly \<open>\<lceil>R / 500\<rceil>\<close> calls, and their batches,
  concatenated in call order, are the record sequence; in any run there are at
  most that many, over an initial part of the records.
\<close>

theorem writer_batches:
  assumes nonempty: "\<not> df_empty (h ! df)"
    and run: "upload_dataframe_to_supabase h df ups s = (h', s', evs)"
    and recs: "records = to_dict_records (replace_table null_mapping (h ! df))"
    and R: "R = length (rows (h ! df))"
  shows "batch_size = 500 \<and> length records = R
     \<and> length (upsert_calls evs) \<le> nat \<lceil>real R / real batch_size\<rceil>
     \<and> (\<forall>k < length (upsert_calls evs).
           upsert_calls evs ! k = take batch_size (drop (k * batch_size) records))
     \<and> (\<forall>k. Suc k < length (upsert_calls evs) \<longrightarrow> length (upsert_calls evs ! k) = batch_size)
     \<and> prefix (concat (upsert_calls evs)) records
     \<and> ((\<forall>x \<in> set (upsert_replies evs). \<exists>d. x = Returned d) \<longrightarrow>
           length (upsert_calls evs) = nat \<lceil>real R / real batch_size\<rceil>
           \<and> concat (upsert_calls evs) = records)"
proof -
  obtain s1 evs1 r where loop: "upload_loop ups s records 0 = (s1, evs1, r)"
    by (cases "upload_loop ups s records 0")
  from writer_nonempty[OF nonempty loop[unfolded recs]] run
  have evs: "evs = [Print MsgPreparing] @ evs1
              @ [Print (case r of None \<Rightarrow> MsgAllOk | Some e \<Rightarrow> MsgUploadError e)]"
    by simp
  then have calls: "upsert_calls evs = upsert_calls evs1"
    and reps: "upsert_replies evs = upsert_replies evs1"
    by (simp_all add: upsert_calls_append upsert_replies_append)
  have pre: "prefix (upsert_calls evs) (batches_from records 0)"
    using upload_loop_calls[OF loop] calls by simp
  have len: "length records = R" using recs R by (simp add: length_to_dict_records)
  have total: "length (batches_from records 0) = nat \<lceil>real R / real batch_size\<rceil>"
    using len by (simp add: length_batches_from ceil_div_nat[OF batch_size_pos])
  have le: "length (upsert_calls evs) \<le> length (batches_from records 0)"
    using pre by (rule prefix_length_le)
  have nth: "\<forall>k < length (upsert_calls evs).
           upsert_calls evs ! k = take batch_size (drop (k * batch_size) records)"
  proof (intro allI impI)
    fix k assume k: "k < length (upsert_calls evs)"
    with pre have "upsert_calls evs ! k = batches_from records 0 ! k"
      by (metis prefixE nth_append)
    also have "\<dots> = take batch_size (drop (0 + batch_size * k) records)"
      using k le by (intro nth_batches_from) simp
    finally show "upsert_calls evs ! k = take batch_size (drop (k * batch_size) records)"
      by (simp add: mult.commute)
  qed
  have full: "\<forall>k. Suc k < length (upsert_calls evs) \<longrightarrow> length (upsert_calls evs ! k) = batch_size"
  proof (intro allI impI)
    fix k assume k: "Suc k < length (upsert_calls evs)"
    then have "Suc k < (length records + batch_size - 1) div batch_size"
      using le by (simp add: length_batches_from)
    then have "Suc (Suc k) \<le> (length records + batch_size - 1) div batch_size" by simp
    then have "Suc (Suc k) * batch_size \<le> length records + batch_size - 1"
      using batch_size_pos by (simp only: less_eq_div_iff_mult_less_eq)
    then have "k * batch_size + batch_size \<le> length records" using batch_size_pos by simp
    moreover have "upsert_calls evs ! k = take batch_size (drop (k * batch_size) records)"
      using nth k by simp
    ultimately show "length (upsert_calls evs ! k) = batch_size" by simp
  qed
  have "prefix (concat (upsert_calls evs)) (concat (batches_from records 0))"
    using pre by (rule prefix_concat)
  then have pc: "prefix (concat (upsert_calls evs)) records"
    by (simp add: concat_batches_from)
  have all: "length (upsert_calls evs) = nat \<lceil>real R / real batch_size\<rceil>
           \<and> concat (upsert_calls evs) = records"
    if ok: "\<forall>x \<in> set (upsert_replies evs). \<exists>d. x = Returned d"
  proof -
    have "r = None"
    proof (cases r)
      case (Some e)
      with upload_loop_replies[OF loop]
      have "upsert_replies evs1 \<noteq> []" "last (upsert_replies evs1) = Raised e"
        by simp_all
      then have "Raised e \<in> set (upsert_replies evs1)" using last_in_set by metis
      with ok reps show ?thesis by auto
    qed simp
    with upload_loop_calls[OF loop] calls
    have c: "upsert_calls evs = batches_from records 0" by simp
    then show ?thesis using total by (simp add: concat_batches_from)
  qed
  from len total le nth full pc all show ?thesis
    by (simp add: batch_size_def)
qed

theorem writer_batches_witness:
  "\<exists>h' s' evs.
     upload_dataframe_to_supabase [\<lparr>columns = [''DSLD ID''], rows = replicate 1200 [IntV 7]\<rparr>] 0
        (\<lambda>s t c b. (s, Returned True)) () = (h', s', evs)
     \<and> \<not> df_empty ([\<lparr>columns = [''DSLD ID''], rows = replicate 1200 [IntV 7]\<rparr>] ! 0)
     \<and> upsert_replies evs = [Returned True, Returned True, Returned True]
     \<and> length (upsert_calls evs) = nat \<lceil>real 1200 / real batch_size\<rceil>
     \<and> map length (upsert_calls evs) = [500, 500, 200]
     \<and> concat (upsert_calls evs) = replicate 1200 [(''DSLD ID'', IntV 7)]"
proof -
  define t where "t = \<lparr>columns = [''DSLD ID''], rows = replicate 1200 [IntV 7]\<rparr>"
  obtain h' s' evs where
    run: "upload_dataframe_to_supabase [t] 0 (\<lambda>s t c b. (s, Returned True)) () = (h', s', evs)"
    by (cases "upload_dataframe_to_supabase [t] 0 (\<lambda>s t c b. (s, Returned True)) ()")
  have ne: "\<not> df_empty ([t] ! 0)"
    by (simp add: t_def df_empty_def)
  from run have evs: "upsert_replies evs = [Returned True, Returned True, Returned True]
      \<and> map length (upsert_calls evs) = [500, 500, 200]"
    by (simp add: t_def upload_dataframe_to_supabase_def df_empty_def df_replace_def alloc_def
        replace_table_def to_dict_records_def upload_loop.simps batch_size_def Let_def) auto
  then have ok: "\<forall>x \<in> set (upsert_replies evs). \<exists>d. x = Returned d" by auto
  have recs: "to_dict_records (replace_table null_mapping ([t] ! 0)) = replicate 1200 [(''DSLD ID'', IntV 7)]"
    by (simp add: t_def to_dict_records_def replace_table_def null_mapping_def replace_cell_def)
  from writer_batches[OF ne run refl refl] ok recs
  have n: "length (upsert_calls evs) = nat \<lceil>real 1200 / real batch_size\<rceil>"
    and c: "concat (upsert_calls evs) = replicate 1200 [(''DSLD ID'', IntV 7)]"
    by (simp_all add: t_def)
  from evs have r: "upsert_replies evs = [Returned True, Returned True, Returned True]"
    and l: "map length (upsert_calls evs) = [500, 500, 200]" by simp_all
  show ?thesis
    apply (intro exI conjI)
         apply (rule run[unfolded t_def])
        apply (rule ne[unfolded t_def])
       apply (rule r)
      apply (rule n)
     apply (rule l)
    apply (rule c)
    done
qed

section \<open>The first error ends the upload\<close>

lemma upload_loop_state:
  "upload_loop ups s records i = (s', evs, r) \<Longrightarrow>
   s' = foldl (\<lambda>st b. fst (ups st table_name on_conflict b)) s (upsert_calls evs)"
proof (induction ups s records i arbitrary: s' evs r rule: upload_loop.induct)
  case (1 ups s records i)
  show ?case
  proof (cases "i < length records")
    case False
    with "1.prems" have "evs = []" "s' = s"
      by (subst (asm) upload_loop.simps, simp)+
    then show ?thesis by simp
  next
    case True
    define batch where "batch = take batch_size (drop i records)"
    obtain s1 rep where u: "ups s table_name on_conflict batch = (s1, rep)"
      by (cases "ups s table_name on_conflict batch")
    show ?thesis
    proof (cases rep)
      case (Raised e)
      with "1.prems" True u have "upsert_calls evs = [batch]" "s' = s1"
        by (subst (asm) upload_loop.simps, auto simp add: batch_def Let_def)+
      then show ?thesis using u by simp
    next
      case (Returned d)
      obtain s2 evs2 r2 where rec: "upload_loop ups s1 records (i + batch_size) = (s2, evs2, r2)"
        by (cases "upload_loop ups s1 records (i + batch_size)")
      from "1.prems" True u Returned rec have ev:
        "upsert_calls evs = batch # upsert_calls evs2" and r: "s' = s2"
        by (subst (asm) upload_loop.simps, auto simp add: batch_def Let_def upsert_calls_append)+
      have "s2 = foldl (\<lambda>st b. fst (ups st table_name on_conflict b)) s1 (upsert_calls evs2)"
        using "1.IH"[OF True batch_def refl _ _ rec] u Returned
        by (simp add: batch_def)
      then show ?thesis using ev r u by simp
    qed
  qed
qed

lemma raised_is_last:
  assumes "k < length xs" "xs ! k = Raised e" "\<forall>x \<in> set (butlast xs). \<exists>d. x = Returned d"
  shows "Suc k = length xs"
proof (rule ccontr)
  assume "Suc k \<noteq> length xs"
  with assms(1) have "k < length (butlast xs)" by simp
  then have "butlast xs ! k \<in> set (butlast xs)" by (rule nth_mem)
  moreover have "butlast xs ! k = xs ! k" using \<open>k < length (butlast xs)\<close> by (simp add: nth_butlast)
  ultimately show False using assms(2,3) by auto
qed

text \<open>
  C2: when the upsert call for the \<open>k\<close>-th batch raises, it is the last upsert
  call of the run: the calls made are those for the batches 0 to \<open>k\<close>, each
  once and in order, so nothing is retried and no later batch is sent; every
  earlier call has returned; all that follows the failing call is the report
  of the error; and the remote store is left as these calls made it, so what
  the earlier batches wrote stays.
\<close>

theorem writer_abort:
  assumes run: "upload_dataframe_to_supabase h df ups s = (h', s', evs)"
    and k: "k < length (upsert_replies evs)"
    and raised: "upsert_replies evs ! k = Raised e"
    and recs: "records = to_dict_records (replace_table null_mapping (h ! df))"
  shows "length (upsert_calls evs) = Suc k
     \<and> (\<forall>j \<le> k. upsert_calls evs ! j = take batch_size (drop (j * batch_size) records))
     \<and> (\<forall>j < k. \<exists>d. upsert_replies evs ! j = Returned d)
     \<and> (\<exists>pre. evs = pre @ [Upsert table_name on_conflict (upsert_calls evs ! k) (Raised e),
                            Print (MsgUploadError e)])
     \<and> s' = foldl (\<lambda>st b. fst (ups st table_name on_conflict b)) s (upsert_calls evs)"
proof -
  have nonempty: "\<not> df_empty (h ! df)"
  proof
    assume "df_empty (h ! df)"
    from writer_empty[OF this, of ups s] run have "evs = [Print MsgEmpty]" by simp
    with k show False by simp
  qed
  obtain s1 evs1 r where loop: "upload_loop ups s records 0 = (s1, evs1, r)"
    by (cases "upload_loop ups s records 0")
  from writer_nonempty[OF nonempty loop[unfolded recs]] run
  have evs: "evs = [Print MsgPreparing] @ evs1
              @ [Print (case r of None \<Rightarrow> MsgAllOk | Some e \<Rightarrow> MsgUploadError e)]"
    and s': "s' = s1"
    by simp_all
  then have calls: "upsert_calls evs = upsert_calls evs1"
    and reps: "upsert_replies evs = upsert_replies evs1"
    by (simp_all add: upsert_calls_append upsert_replies_append)
  from k raised have mem: "Raised e \<in> set (upsert_replies evs1)"
    unfolding reps by (metis nth_mem)
  obtain e' where r: "r = Some e'"
  proof (cases r)
    case None
    with upload_loop_replies[OF loop] mem show ?thesis by auto
  qed
  from upload_loop_replies[OF loop] r have
    ne: "upsert_replies evs1 \<noteq> []" and
    lastr: "last (upsert_replies evs1) = Raised e'" and
    init: "\<forall>x \<in> set (butlast (upsert_replies evs1)). \<exists>d. x = Returned d" and
    laste: "last evs1 = Upsert table_name on_conflict (last (upsert_calls evs1)) (Raised e')"
    by simp_all
  from raised_is_last[OF k[unfolded reps] raised[unfolded reps] init]
  have len: "Suc k = length (upsert_replies evs1)" .
  then have len_calls: "length (upsert_calls evs1) = Suc k"
    by (simp add: length_upsert_replies)
  have "last (upsert_replies evs1) = upsert_replies evs1 ! k"
    using ne len by (metis diff_Suc_1 last_conv_nth)
  with lastr raised reps have e: "e' = e" by simp
  have lastc: "last (upsert_calls evs1) = upsert_calls evs1 ! k"
    using len_calls by (metis diff_Suc_1 last_conv_nth length_0_conv nat.distinct(1))
  have pre: "prefix (upsert_calls evs1) (batches_from records 0)"
    using upload_loop_calls[OF loop] by simp
  have nth: "\<forall>j \<le> k. upsert_calls evs ! j = take batch_size (drop (j * batch_size) records)"
  proof (intro allI impI)
    fix j assume "j \<le> k"
    then have j: "j < length (upsert_calls evs1)" using len_calls by simp
    from pre have le: "length (upsert_calls evs1) \<le> length (batches_from records 0)"
      by (rule prefix_length_le)
    from pre j have "upsert_calls evs1 ! j = batches_from records 0 ! j"
      by (metis prefixE nth_append)
    also have "\<dots> = take batch_size (drop (0 + batch_size * j) records)"
      using j le by (intro nth_batches_from) simp
    finally show "upsert_calls evs ! j = take batch_size (drop (j * batch_size) records)"
      by (simp add: calls mult.commute)
  qed
  have early: "\<forall>j < k. \<exists>d. upsert_replies evs ! j = Returned d"
  proof (intro allI impI)
    fix j assume "j < k"
    then have jl: "j < length (butlast (upsert_replies evs1))" using len by simp
    then have "butlast (upsert_replies evs1) ! j \<in> set (butlast (upsert_replies evs1))"
      by (rule nth_mem)
    moreover from jl have "butlast (upsert_replies evs1) ! j = upsert_replies evs1 ! j"
      by (simp add: nth_butlast)
    ultimately have "upsert_replies evs1 ! j \<in> set (butlast (upsert_replies evs1))" by simp
    with init show "\<exists>d. upsert_replies evs ! j = Returned d" by (auto simp: reps)
  qed
  from ne have "evs1 \<noteq> []" by auto
  then have "evs1 = butlast evs1 @ [last evs1]" by simp
  with laste lastc e have "evs1 = butlast evs1 @ [Upsert table_name on_conflict (upsert_calls evs1 ! k) (Raised e)]"
    by simp
  with evs r e calls have shape: "\<exists>pre. evs = pre @ [Upsert table_name on_conflict (upsert_calls evs ! k) (Raised e),
                            Print (MsgUploadError e)]"
    by (intro exI[of _ "Print MsgPreparing # butlast evs1"]) simp
  from upload_loop_state[OF loop] s' calls
  have st: "s' = foldl (\<lambda>st b. fst (ups st table_name on_conflict b)) s (upsert_calls evs)"
    by simp
  from len_calls calls nth early shape st show ?thesis by simp
qed

theorem writer_abort_witness:
  "\<exists>h' s' evs.
     upload_dataframe_to_supabase [\<lparr>columns = [''DSLD ID''], rows = replicate 1200 [IntV 7]\<rparr>] 0
        (\<lambda>st t c b. if 500 \<le> length st then (st, Raised ''boom'') else (st @ b, Returned True)) []
       = (h', s', evs)
     \<and> 1 < length (upsert_replies evs)
     \<and> upsert_replies evs ! 1 = Raised ''boom''
     \<and> length (upsert_calls evs) = Suc 1
     \<and> (\<exists>pre. evs = pre @ [Upsert table_name on_conflict (upsert_calls evs ! 1) (Raised ''boom''),
                            Print (MsgUploadError ''boom'')])
     \<and> s' = replicate 500 [(''DSLD ID'', IntV 7)]"
proof -
  define t where "t = \<lparr>columns = [''DSLD ID''], rows = replicate 1200 [IntV 7]\<rparr>"
  define ups :: "rowrec list upsert_fn" where
    "ups = (\<lambda>st t c b. if 500 \<le> length st then (st, Raised ''boom'') else (st @ b, Returned True))"
  obtain h' s' evs where
    run: "upload_dataframe_to_supabase [t] 0 ups [] = (h', s', evs)"
    by (cases "upload_dataframe_to_supabase [t] 0 ups []")
  from run have evs: "upsert_replies evs = [Returned True, Raised ''boom'']
       \<and> s' = replicate 500 [(''DSLD ID'', IntV 7)]"
    by (simp add: t_def ups_def upload_dataframe_to_supabase_def df_empty_def df_replace_def
        alloc_def replace_table_def to_dict_records_def upload_loop.simps batch_size_def Let_def
        null_mapping_def replace_cell_def) auto
  then have k: "1 < length (upsert_replies evs)"
    and raised: "upsert_replies evs ! 1 = Raised ''boom''"
    and st: "s' = replicate 500 [(''DSLD ID'', IntV 7)]" by simp_all
  note w = writer_abort[OF run k raised refl]
  have n: "length (upsert_calls evs) = Suc 1"
    and shape: "\<exists>pre. evs = pre @ [Upsert table_name on_conflict (upsert_calls evs ! 1) (Raised ''boom''),
                            Print (MsgUploadError ''boom'')]"
    using w[THEN conjunct1] w[THEN conjunct2, THEN conjunct2, THEN conjunct2, THEN conjunct1]
    by - assumption+
  show ?thesis
    apply (rule exI[of _ h'], rule exI[of _ s'], rule exI[of _ evs])
    apply (intro conjI)
         apply (rule run[unfolded t_def ups_def])
        apply (rule k)
       apply (rule raised)
      apply (rule n)
     apply (rule shape)
    apply (rule st)
    done
qed

section \<open>Null normalisation and the callers table\<close>

lemma replace_cell_null:
  "replace_cell null_mapping c = (if c = NaN \<or> c = NA then PyNone else c)"
  by (simp add: replace_cell_def null_mapping_def)

lemma writer_calls_prefix:
  assumes run: "upload_dataframe_to_supabase h df ups s = (h', s', evs)"
  shows "prefix (upsert_calls evs)
           (batches_from (to_dict_records (replace_table null_mapping (h ! df))) 0)"
proof (cases "df_empty (h ! df)")
  case True
  from writer_empty[OF this, of ups s] run have "evs = [Print MsgEmpty]" by simp
  then show ?thesis by simp
next
  case False
  obtain s1 evs1 r where
    loop: "upload_loop ups s (to_dict_records (replace_table null_mapping (h ! df))) 0 = (s1, evs1, r)"
    by (cases "upload_loop ups s (to_dict_records (replace_table null_mapping (h ! df))) 0")
  from writer_nonempty[OF False loop] run
  have "upsert_calls evs = upsert_calls evs1"
    by (auto simp add: upsert_calls_append)
  with upload_loop_calls[OF loop] show ?thesis by simp
qed

text \<open>
  C8: before the table is turned into row-records, both missing-value sentinels,
  \<open>NaN\<close> and \<open>NA\<close>, are replaced by the one null marker \<open>None\<close> and every other
  cell is kept; the records that the upsert calls carry are records of the
  table so normalised, and none of them holds \<open>NaN\<close> or \<open>NA\<close>.
\<close>

theorem writer_null_normalisation:
  assumes run: "upload_dataframe_to_supabase h df ups s = (h', s', evs)"
  shows "(\<forall>c. replace_cell null_mapping c = (if c = NaN \<or> c = NA then PyNone else c))
     \<and> prefix (concat (upsert_calls evs))
          (map (\<lambda>r. zip (columns (h ! df)) (map (replace_cell null_mapping) r)) (rows (h ! df)))
     \<and> (\<forall>batch \<in> set (upsert_calls evs). \<forall>rr \<in> set batch. \<forall>(c, v) \<in> set rr.
           v \<noteq> NaN \<and> v \<noteq> NA)"
proof -
  let ?records = "to_dict_records (replace_table null_mapping (h ! df))"
  have recs: "?records =
      map (\<lambda>r. zip (columns (h ! df)) (map (replace_cell null_mapping) r)) (rows (h ! df))"
    by (simp add: to_dict_records_def replace_table_def)
  have "prefix (concat (upsert_calls evs)) (concat (batches_from ?records 0))"
    using writer_calls_prefix[OF run] by (rule prefix_concat)
  then have pre: "prefix (concat (upsert_calls evs)) ?records"
    by (simp add: concat_batches_from)
  have clean: "v \<noteq> NaN \<and> v \<noteq> NA"
    if "batch \<in> set (upsert_calls evs)" "rr \<in> set batch" "(c, v) \<in> set rr"
    for batch rr c v
  proof -
    from that(1,2) have "rr \<in> set (concat (upsert_calls evs))" by auto
    with pre have "rr \<in> set ?records" by (auto simp: prefix_def)
    then obtain r where "rr = zip (columns (h ! df)) (map (replace_cell null_mapping) r)"
      unfolding recs by auto
    with that(3) have "v \<in> set (map (replace_cell null_mapping) r)"
      by (auto dest: set_zip_rightD)
    then obtain x where "v = replace_cell null_mapping x" by auto
    then show ?thesis by (simp add: replace_cell_null)
  qed
  show ?thesis using pre clean by (auto simp: recs[symmetric] replace_cell_null)
qed

theorem writer_null_normalisation_witness:
  "\<exists>h' s' evs.
     upload_dataframe_to_supabase
        [\<lparr>columns = [''DSLD ID'', ''Bar Code''],
          rows = [[IntV 1, NaN], [IntV 2, NA], [IntV 3, StrV ''0 12345 67890 5'']]\<rparr>] 0
        (\<lambda>s t c b. (s, Returned True)) () = (h', s', evs)
     \<and> upsert_calls evs =
          [[[(''DSLD ID'', IntV 1), (''Bar Code'', PyNone)],
            [(''DSLD ID'', IntV 2), (''Bar Code'', PyNone)],
            [(''DSLD ID'', IntV 3), (''Bar Code'', StrV ''0 12345 67890 5'')]]]
     \<and> (\<forall>batch \<in> set (upsert_calls evs). \<forall>rr \<in> set batch. \<forall>(c, v) \<in> set rr.
           v \<noteq> NaN \<and> v \<noteq> NA)"
proof -
  define t where "t = \<lparr>columns = [''DSLD ID'', ''Bar Code''],
          rows = [[IntV 1, NaN], [IntV 2, NA], [IntV 3, StrV ''0 12345 67890 5'']]\<rparr>"
  obtain h' s' evs where
    run: "upload_dataframe_to_supabase [t] 0 (\<lambda>s t c b. (s, Returned True)) () = (h', s', evs)"
    by (cases "upload_dataframe_to_supabase [t] 0 (\<lambda>s t c b. (s, Returned True)) ()")
  from run have calls: "upsert_calls evs =
          [[[(''DSLD ID'', IntV 1), (''Bar Code'', PyNone)],
            [(''DSLD ID'', IntV 2), (''Bar Code'', PyNone)],
            [(''DSLD ID'', IntV 3), (''Bar Code'', StrV ''0 12345 67890 5'')]]]"
    by (simp add: t_def upload_dataframe_to_supabase_def df_empty_def df_replace_def
        alloc_def replace_table_def to_dict_records_def upload_loop.simps batch_size_def Let_def
        null_mapping_def replace_cell_def) auto
  note w = writer_null_normalisation[OF run]
  have clean: "\<forall>batch \<in> set (upsert_calls evs). \<forall>rr \<in> set batch. \<forall>(c, v) \<in> set rr.
           v \<noteq> NaN \<and> v \<noteq> NA"
    by (rule w[THEN conjunct2, THEN conjunct2])
  show ?thesis
    apply (rule exI[of _ h'], rule exI[of _ s'], rule exI[of _ evs])
    apply (intro conjI)
      apply (rule run[unfolded t_def])
     apply (rule calls)
    apply (rule clean)
    done
qed

text \<open>
  C10: the writer does not change its argument. Whether the run uploads
  everything, does nothing for an empty table or ends in the \<open>except\<close> clause,
  the table at the caller's reference, and every other object the caller had,
  is what it was before the call: the normalised table is a new object.
\<close>

theorem writer_keeps_argument:
  assumes run: "upload_dataframe_to_supabase h df ups s = (h', s', evs)"
    and valid: "df < length h"
  shows "h' ! df = h ! df \<and> take (length h) h' = h"
proof (cases "df_empty (h ! df)")
  case True
  from writer_empty[OF this, of ups s] run have "h' = h" by simp
  then show ?thesis by simp
next
  case False
  obtain s1 evs1 r where
    loop: "upload_loop ups s (to_dict_records (replace_table null_mapping (h ! df))) 0 = (s1, evs1, r)"
    by (cases "upload_loop ups s (to_dict_records (replace_table null_mapping (h ! df))) 0")
  from writer_nonempty[OF False loop] run
  have "h' = h @ [replace_table null_mapping (h ! df)]" by simp
  with valid show ?thesis by (simp add: nth_append)
qed


theorem writer_keeps_argument_witness:
  "\<exists>h' s' evs.
     upload_dataframe_to_supabase
        [\<lparr>columns = [], rows = []\<rparr>,
         \<lparr>columns = [''DSLD ID'', ''Bar Code''], rows = [[IntV 1, NaN], [IntV 2, NA]]\<rparr>] 1
        (\<lambda>s t c b. (s, Raised ''boom'')) () = (h', s', evs)
     \<and> (1::nat) < length [\<lparr>columns = [], rows = []\<rparr>,
         \<lparr>columns = [''DSLD ID'', ''Bar Code''], rows = [[IntV 1, NaN], [IntV 2, NA]]\<rparr>]
     \<and> h' ! 1 = \<lparr>columns = [''DSLD ID'', ''Bar Code''], rows = [[IntV 1, NaN], [IntV 2, NA]]\<rparr>
     \<and> upsert_calls evs =
          [[[(''DSLD ID'', IntV 1), (''Bar Code'', PyNone)],
            [(''DSLD ID'', IntV 2), (''Bar Code'', PyNone)]]]"
proof -
  define h where "h = [\<lparr>columns = [], rows = []\<rparr>,
         \<lparr>columns = [''DSLD ID'', ''Bar Code''], rows = [[IntV 1, NaN], [IntV 2, NA]]\<rparr>]"
  obtain h' s' evs where
    run: "upload_dataframe_to_supabase h 1 (\<lambda>s t c b. (s, Raised ''boom'')) () = (h', s', evs)"
    by (cases "upload_dataframe_to_supabase h 1 (\<lambda>s t c b. (s, Raised ''boom'')) ()")
  have valid: "(1::nat) < length h" by (simp add: h_def)
  from run have calls: "upsert_calls evs =
          [[[(''DSLD ID'', IntV 1), (''Bar Code'', PyNone)],
            [(''DSLD ID'', IntV 2), (''Bar Code'', PyNone)]]]"
    by (simp add: h_def upload_dataframe_to_supabase_def df_empty_def df_replace_def
        alloc_def replace_table_def to_dict_records_def upload_loop.simps batch_size_def Let_def
        null_mapping_def replace_cell_def) auto
  from writer_keeps_argument[OF run valid]
  have same: "h' ! 1 = \<lparr>columns = [''DSLD ID'', ''Bar Code''], rows = [[IntV 1, NaN], [IntV 2, NA]]\<rparr>"
    by (simp add: h_def)
  show ?thesis
    apply (rule exI[of _ h'], rule exI[of _ s'], rule exI[of _ evs])
    apply (intro conjI)
       apply (rule run[unfolded h_def])
      apply (rule valid[unfolded h_def])
     apply (rule same)
    apply (rule calls)
    done
qed

section \<open>Upsert on the ID column\<close>

lemma conflict_column_on_conflict: "conflict_column on_conflict = ''DSLD ID''"
  by (simp add: conflict_column_def on_conflict_def)

lemma upsert_row_ids:
  "map (\<lambda>x. map_of x key) (upsert_row key dest r) =
     (if map_of r key \<in> set (map (\<lambda>x. map_of x key) dest)
      then map (\<lambda>x. map_of x key) dest
      else map (\<lambda>x. map_of x key) dest @ [map_of r key])"
  by (auto simp: upsert_row_def intro!: map_cong)

lemma upsert_row_rows: "set (upsert_row key dest r) \<subseteq> insert r (set dest)"
  by (auto simp: upsert_row_def)

lemma foldl_upsert_distinct:
  "distinct (map (\<lambda>x. map_of x key) dest) \<Longrightarrow>
   distinct (map (\<lambda>x. map_of x key) (foldl (upsert_row key) dest batch))"
  by (induction batch arbitrary: dest) (simp_all add: upsert_row_ids)

lemma foldl_upsert_prefix:
  "prefix (map (\<lambda>x. map_of x key) dest)
          (map (\<lambda>x. map_of x key) (foldl (upsert_row key) dest batch))"
proof (induction batch arbitrary: dest)
  case Nil
  show ?case by simp
next
  case (Cons r batch)
  have "prefix (map (\<lambda>x. map_of x key) dest) (map (\<lambda>x. map_of x key) (upsert_row key dest r))"
    by (simp add: upsert_row_ids)
  with Cons[of "upsert_row key dest r"] show ?case
    by (auto intro: prefix_order.trans)
qed

lemma foldl_upsert_ids:
  "set (map (\<lambda>x. map_of x key) (foldl (upsert_row key) dest batch)) =
   set (map (\<lambda>x. map_of x key) dest) \<union> set (map (\<lambda>x. map_of x key) batch)"
proof (induction batch arbitrary: dest)
  case Nil
  show ?case by simp
next
  case (Cons r batch)
  have "set (map (\<lambda>x. map_of x key) (upsert_row key dest r)) =
        insert (map_of r key) (set (map (\<lambda>x. map_of x key) dest))"
    by (simp only: upsert_row_ids) auto
  with Cons[of "upsert_row key dest r"] show ?case by auto
qed

lemma foldl_upsert_rows:
  "set (foldl (upsert_row key) dest batch) \<subseteq> set dest \<union> set batch"
proof (induction batch arbitrary: dest)
  case Nil
  show ?case by simp
next
  case (Cons r batch)
  from Cons[of "upsert_row key dest r"] upsert_row_rows[of key dest r] show ?case by auto
qed

lemma foldl_store_upsert:
  "foldl (\<lambda>st b. fst (store_upsert st t c b)) s bs =
   s(t := foldl (upsert_row (conflict_column c)) (s t) (concat bs))"
  by (induction bs arbitrary: s) (simp_all add: store_upsert_def)

lemma upload_loop_target:
  "upload_loop ups s records i = (s', evs, r) \<Longrightarrow>
   \<forall>ev \<in> set evs. \<forall>t c b rp. ev = Upsert t c b rp \<longrightarrow> t = table_name \<and> c = on_conflict"
proof (induction ups s records i arbitrary: s' evs r rule: upload_loop.induct)
  case (1 ups s records i)
  show ?case
  proof (cases "i < length records")
    case False
    with "1.prems" have "evs = []"
      by (subst (asm) upload_loop.simps) simp
    then show ?thesis by simp
  next
    case True
    define batch where "batch = take batch_size (drop i records)"
    obtain s1 rep where u: "ups s table_name on_conflict batch = (s1, rep)"
      by (cases "ups s table_name on_conflict batch")
    show ?thesis
    proof (cases rep)
      case (Raised e)
      with "1.prems" True u have "evs = [Print (MsgUploading (i div batch_size + 1)
                    ((length records + batch_size - 1) div batch_size) (length batch)),
                  Upsert table_name on_conflict batch (Raised e)]"
        by (subst (asm) upload_loop.simps) (simp add: batch_def Let_def)
      then show ?thesis by simp
    next
      case (Returned d)
      obtain s2 evs2 r2 where rec: "upload_loop ups s1 records (i + batch_size) = (s2, evs2, r2)"
        by (cases "upload_loop ups s1 records (i + batch_size)")
      from "1.prems" True u Returned rec have ev:
        "evs = [Print (MsgUploading (i div batch_size + 1)
                    ((length records + batch_size - 1) div batch_size) (length batch)),
                Upsert table_name on_conflict batch (Returned d)]
                        @ (if d then [Print (MsgBatchOk (i div batch_size + 1))] else [])
                        @ [Sleep 1] @ evs2"
        by (subst (asm) upload_loop.simps) (simp add: batch_def Let_def)
      have "\<forall>ev \<in> set evs2. \<forall>t c b rp. ev = Upsert t c b rp \<longrightarrow> t = table_name \<and> c = on_conflict"
        using "1.IH"[OF True batch_def refl _ _ rec] u Returned by (simp add: batch_def)
      with ev show ?thesis by auto
    qed
  qed
qed

lemma upload_loop_returns:
  "upload_loop ups s records i = (s', evs, r) \<Longrightarrow>
   \<forall>st b. \<exists>st' d. ups st table_name on_conflict b = (st', Returned d) \<Longrightarrow> r = None"
proof (induction ups s records i arbitrary: s' evs r rule: upload_loop.induct)
  case (1 ups s records i)
  show ?case
  proof (cases "i < length records")
    case False
    with "1.prems"(1) show ?thesis
      by (subst (asm) upload_loop.simps) simp
  next
    case True
    define batch where "batch = take batch_size (drop i records)"
    from "1.prems"(2) obtain s1 d where u: "ups s table_name on_conflict batch = (s1, Returned d)"
      by blast
    obtain s2 evs2 r2 where rec: "upload_loop ups s1 records (i + batch_size) = (s2, evs2, r2)"
      by (cases "upload_loop ups s1 records (i + batch_size)")
    from "1.prems"(1) True u rec have "r = r2"
      by (subst (asm) upload_loop.simps) (simp add: batch_def Let_def)
    moreover have "r2 = None"
      using "1.IH"[OF True batch_def refl _ _ rec "1.prems"(2)] u by (simp add: batch_def)
    ultimately show ?thesis by simp
  qed
qed

text \<open>
  C9: every chunk is sent by exactly one upsert call, every upsert call names
  the table \<open>dsld_supplements\<close> with conflict resolution on the column
  \<open>DSLD ID\<close>, and no other table of the store is touched. On the destination
  with its upsert as the spec describes it, a table whose IDs are unique before
  the run has unique IDs after it: the rows that were there keep their places,
  an incoming row replaces the row of its ID or is added at the end, and the
  IDs present afterwards are the old ones and those of the records.
\<close>

theorem writer_upsert_on_id:
  assumes run: "upload_dataframe_to_supabase h df store_upsert s = (h', s', evs)"
    and nonempty: "\<not> df_empty (h ! df)"
    and uniq: "distinct (map (\<lambda>x. map_of x ''DSLD ID'') (s table_name))"
    and recs: "records = to_dict_records (replace_table null_mapping (h ! df))"
  shows "upsert_calls evs = batches_from records 0
     \<and> (\<forall>ev \<in> set evs. \<forall>t c b r. ev = Upsert t c b r \<longrightarrow>
           t = ''dsld_supplements'' \<and> c = on_conflict \<and> conflict_column c = ''DSLD ID'')
     \<and> (\<forall>t. t \<noteq> ''dsld_supplements'' \<longrightarrow> s' t = s t)
     \<and> s' ''dsld_supplements'' = foldl (upsert_row ''DSLD ID'') (s ''dsld_supplements'') records
     \<and> distinct (map (\<lambda>x. map_of x ''DSLD ID'') (s' ''dsld_supplements''))
     \<and> prefix (map (\<lambda>x. map_of x ''DSLD ID'') (s ''dsld_supplements''))
               (map (\<lambda>x. map_of x ''DSLD ID'') (s' ''dsld_supplements''))
     \<and> set (map (\<lambda>x. map_of x ''DSLD ID'') (s' ''dsld_supplements'')) =
         set (map (\<lambda>x. map_of x ''DSLD ID'') (s ''dsld_supplements''))
           \<union> set (map (\<lambda>x. map_of x ''DSLD ID'') records)
     \<and> set (s' ''dsld_supplements'') \<subseteq> set (s ''dsld_supplements'') \<union> set records"
proof -
  obtain s1 evs1 r where loop: "upload_loop store_upsert s records 0 = (s1, evs1, r)"
    by (cases "upload_loop store_upsert s records 0")
  have "\<forall>st b. \<exists>st' d. store_upsert st table_name on_conflict b = (st', Returned d)"
    by (simp add: store_upsert_def)
  from upload_loop_returns[OF loop this] have r: "r = None" .
  from writer_nonempty[OF nonempty loop[unfolded recs]] run r
  have evs: "evs = [Print MsgPreparing] @ evs1 @ [Print MsgAllOk]" and s': "s' = s1"
    by simp_all
  then have calls: "upsert_calls evs = upsert_calls evs1"
    by (simp add: upsert_calls_append)
  from upload_loop_calls[OF loop] r calls
  have c: "upsert_calls evs = batches_from records 0" by simp
  have target: "\<forall>ev \<in> set evs. \<forall>t c b r. ev = Upsert t c b r \<longrightarrow>
           t = ''dsld_supplements'' \<and> c = on_conflict \<and> conflict_column c = ''DSLD ID''"
    using upload_loop_target[OF loop] evs
    by (auto simp: table_name_def conflict_column_on_conflict)
  from upload_loop_state[OF loop] s' calls c
  have "s' = foldl (\<lambda>st b. fst (store_upsert st table_name on_conflict b)) s
                (batches_from records 0)"
    by simp
  then have st: "s' = s(table_name := foldl (upsert_row ''DSLD ID'') (s table_name) records)"
    by (simp add: foldl_store_upsert concat_batches_from conflict_column_on_conflict)
  have tn: "table_name = ''dsld_supplements''" by (simp add: table_name_def)
  from st have dest:
    "s' ''dsld_supplements'' = foldl (upsert_row ''DSLD ID'') (s ''dsld_supplements'') records"
    and others: "\<forall>t. t \<noteq> ''dsld_supplements'' \<longrightarrow> s' t = s t"
    by (simp_all add: tn)
  show ?thesis
    using c target others dest uniq[unfolded tn]
      foldl_upsert_distinct[of "''DSLD ID''" "s ''dsld_supplements''" records]
      foldl_upsert_prefix[of "''DSLD ID''" "s ''dsld_supplements''" records]
      foldl_upsert_ids[of "''DSLD ID''" "s ''dsld_supplements''" records]
      foldl_upsert_rows[of "''DSLD ID''" "s ''dsld_supplements''" records]
    by simp
qed

theorem writer_upsert_on_id_witness:
  "\<exists>h' s' evs.
     upload_dataframe_to_supabase
        [\<lparr>columns = [''DSLD ID'', ''Product Name''],
          rows = [[IntV 1, StrV ''new''], [IntV 2, StrV ''b''], [IntV 2, StrV ''c'']]\<rparr>] 0
        store_upsert
        ((\<lambda>t. [])(''dsld_supplements'' := [[(''DSLD ID'', IntV 1), (''Product Name'', StrV ''old'')]]))
       = (h', s', evs)
     \<and> \<not> df_empty ([\<lparr>columns = [''DSLD ID'', ''Product Name''],
          rows = [[IntV 1, StrV ''new''], [IntV 2, StrV ''b''], [IntV 2, StrV ''c'']]\<rparr>] ! 0)
     \<and> distinct (map (\<lambda>x. map_of x ''DSLD ID'')
          (((\<lambda>t. [])(''dsld_supplements'' := [[(''DSLD ID'', IntV 1), (''Product Name'', StrV ''old'')]]))
             table_name))
     \<and> s' ''dsld_supplements'' =
          [[(''DSLD ID'', IntV 1), (''Product Name'', StrV ''new'')],
           [(''DSLD ID'', IntV 2), (''Product Name'', StrV ''c'')]]
     \<and> distinct (map (\<lambda>x. map_of x ''DSLD ID'') (s' ''dsld_supplements''))"
proof -
  define t where "t = \<lparr>columns = [''DSLD ID'', ''Product Name''],
          rows = [[IntV 1, StrV ''new''], [IntV 2, StrV ''b''], [IntV 2, StrV ''c'']]\<rparr>"
  define s :: store where
    "s = (\<lambda>t. [])(''dsld_supplements'' := [[(''DSLD ID'', IntV 1), (''Product Name'', StrV ''old'')]])"
  obtain h' s' evs where
    run: "upload_dataframe_to_supabase [t] 0 store_upsert s = (h', s', evs)"
    by (cases "upload_dataframe_to_supabase [t] 0 store_upsert s")
  have ne: "\<not> df_empty ([t] ! 0)" by (simp add: t_def df_empty_def)
  have uniq: "distinct (map (\<lambda>x. map_of x ''DSLD ID'') (s table_name))"
    by (simp add: s_def table_name_def)
  note w = writer_upsert_on_id[OF run ne uniq refl]
  have "s' ''dsld_supplements'' = foldl (upsert_row ''DSLD ID'') (s ''dsld_supplements'')
          (to_dict_records (replace_table null_mapping ([t] ! 0)))"
    by (rule w[THEN conjunct2, THEN conjunct2, THEN conjunct2, THEN conjunct1])
  then have dest: "s' ''dsld_supplements'' =
          [[(''DSLD ID'', IntV 1), (''Product Name'', StrV ''new'')],
           [(''DSLD ID'', IntV 2), (''Product Name'', StrV ''c'')]]"
    by (simp add: t_def s_def to_dict_records_def replace_table_def null_mapping_def
          replace_cell_def upsert_row_def)
  have d: "distinct (map (\<lambda>x. map_of x ''DSLD ID'') (s' ''dsld_supplements''))"
    by (rule w[THEN conjunct2, THEN conjunct2, THEN conjunct2, THEN conjunct2, THEN conjunct1])
  show ?thesis
    apply (rule exI[of _ h'], rule exI[of _ s'], rule exI[of _ evs])
    apply (intro conjI)
        apply (rule run[unfolded t_def s_def])
       apply (rule ne[unfolded t_def])
      apply (rule uniq[unfolded s_def])
     apply (rule dest)
    apply (rule d)
    done
qed

section \<open>What the fetcher returns\<close>

lemma is_target_iff:
  "is_target name \<longleftrightarrow>
     (\<exists>pre post. name = pre @ ''ProductOverview'' @ post) \<and> (\<exists>stem. name = stem @ ''.csv'')"
  unfolding is_target_def TARGET_FILENAME_CONTAINS_def sublist_def suffix_def by (rule refl)

lemma zip_open_Inr:
  assumes "zip_open zf name = Inr f"
  shows "filename f = name \<and> f \<in> set zf \<and> open_raises f = None"
proof -
  from assms obtain m where
    m: "find (\<lambda>m. filename m = name) (rev zf) = Some m"
    by (cases "find (\<lambda>m. filename m = name) (rev zf)") (simp_all add: zip_open_def)
  with assms have f: "f = m" and o: "open_raises m = None"
    by (simp_all add: zip_open_def split: option.splits)
  from m obtain i where "i < length (rev zf)" "filename (rev zf ! i) = name" "m = rev zf ! i"
    unfolding find_Some_iff by blast
  moreover then have "rev zf ! i \<in> set (rev zf)" by (intro nth_mem)
  ultimately show ?thesis using f o by simp
qed

lemma zip_open_member:
  assumes "m \<in> set zf"
    and "\<forall>x \<in> set zf. filename x = filename m \<longrightarrow> open_raises x = None"
  shows "\<exists>f. zip_open zf (filename m) = Inr f"
proof (cases "find (\<lambda>x. filename x = filename m) (rev zf)")
  case None
  then have "\<not> (\<exists>x. x \<in> set (rev zf) \<and> filename x = filename m)"
    unfolding find_None_iff by blast
  with assms(1) show ?thesis by auto
next
  case (Some x)
  then obtain i where "i < length (rev zf)" "filename (rev zf ! i) = filename m" "x = rev zf ! i"
    unfolding find_Some_iff by blast
  moreover then have "rev zf ! i \<in> set (rev zf)" by (intro nth_mem)
  ultimately have "x \<in> set zf" "filename x = filename m" by simp_all
  with assms(2) have "open_raises x = None" by blast
  with Some show ?thesis by (simp add: zip_open_def)
qed

lemma zip_open_distinct:
  assumes "m \<in> set zf" "distinct (map filename zf)"
    and "\<forall>x \<in> set zf. filename x = filename m \<longrightarrow> open_raises x = None"
  shows "zip_open zf (filename m) = Inr m"
proof -
  from zip_open_member[OF assms(1,3)] obtain f where f: "zip_open zf (filename m) = Inr f" ..
  from zip_open_Inr[OF f] have "filename f = filename m" "f \<in> set zf" by simp_all
  with assms(1,2) have "f = m" unfolding distinct_map by (blast dest: inj_onD)
  with f show ?thesis by simp
qed

lemma scan_members_result:
  assumes opens: "\<forall>m \<in> set zf. is_target (filename m) \<longrightarrow> open_raises m = None"
  shows "set ms \<subseteq> set zf \<Longrightarrow>
   \<exists>fs. scan_members zf ms (evs, acc) =
          (evs @ map (\<lambda>m. Print (MsgFound (filename m))) (filter (\<lambda>m. is_target (filename m)) ms),
           Inr (acc @ fs))
      \<and> map filename fs = map filename (filter (\<lambda>m. is_target (filename m)) ms)
      \<and> set fs \<subseteq> set zf
      \<and> (distinct (map filename zf) \<longrightarrow> fs = filter (\<lambda>m. is_target (filename m)) ms)"
proof (induction ms arbitrary: evs acc)
  case Nil
  show ?case by simp
next
  case (Cons fi rest)
  then have fi: "fi \<in> set zf" and rest: "set rest \<subseteq> set zf" by simp_all
  show ?case
  proof (cases "is_target (filename fi)")
    case False
    with Cons.IH[OF rest, of evs acc] show ?thesis by simp
  next
    case True
    with opens have same: "\<forall>x \<in> set zf. filename x = filename fi \<longrightarrow> open_raises x = None"
      by auto
    from zip_open_member[OF fi same] obtain f where f: "zip_open zf (filename fi) = Inr f" ..
    from zip_open_Inr[OF f] have fn: "filename f = filename fi" and fin: "f \<in> set zf" by simp_all
    from Cons.IH[OF rest, of "evs @ [Print (MsgFound (filename fi))]" "acc @ [f]"]
    obtain fs where
      1: "scan_members zf rest (evs @ [Print (MsgFound (filename fi))], acc @ [f]) =
          ((evs @ [Print (MsgFound (filename fi))]) @
             map (\<lambda>m. Print (MsgFound (filename m))) (filter (\<lambda>m. is_target (filename m)) rest),
           Inr ((acc @ [f]) @ fs))"
      and 2: "map filename fs = map filename (filter (\<lambda>m. is_target (filename m)) rest)"
      and 3: "set fs \<subseteq> set zf"
      and 4: "distinct (map filename zf) \<longrightarrow> fs = filter (\<lambda>m. is_target (filename m)) rest"
      by blast
    have 5: "distinct (map filename zf) \<longrightarrow> f = fi"
      using zip_open_distinct[OF fi _ same] f by simp
    show ?thesis
      apply (rule exI[of _ "f # fs"])
      using True f 1 2 3 4 5 fn fin by simp
  qed
qed

lemma fetch_archive:
  assumes get: "http_get w url = Response status body"
    and ok: "\<not> raise_for_status status"
    and zip: "zip_parse w body = Inr zf"
    and opens: "\<forall>m \<in> set zf. is_target (filename m) \<longrightarrow> open_raises m = None"
  shows "\<exists>fs. download_and_unzip_data w url =
           ([Print (MsgDownloading url), HttpGet url]
              @ map (\<lambda>m. Print (MsgFound (filename m))) (filter (\<lambda>m. is_target (filename m)) zf)
              @ (if fs = [] then [Print MsgNoFiles] else []),
            Inr fs)
      \<and> map filename fs = map filename (filter (\<lambda>m. is_target (filename m)) zf)
      \<and> set fs \<subseteq> set zf
      \<and> (distinct (map filename zf) \<longrightarrow> fs = filter (\<lambda>m. is_target (filename m)) zf)"
proof -
  from scan_members_result[OF opens, of zf "[]" "[]"] obtain fs where
    1: "scan_members zf zf ([], []) =
          (map (\<lambda>m. Print (MsgFound (filename m))) (filter (\<lambda>m. is_target (filename m)) zf), Inr fs)"
    and 2: "map filename fs = map filename (filter (\<lambda>m. is_target (filename m)) zf)"
    and 3: "set fs \<subseteq> set zf"
    and 4: "distinct (map filename zf) \<longrightarrow> fs = filter (\<lambda>m. is_target (filename m)) zf"
    by auto
  have "download_and_unzip_data w url =
           ([Print (MsgDownloading url), HttpGet url]
              @ map (\<lambda>m. Print (MsgFound (filename m))) (filter (\<lambda>m. is_target (filename m)) zf)
              @ (if fs = [] then [Print MsgNoFiles] else []),
            Inr fs)"
    using get ok zip 1 by (simp add: download_and_unzip_data_def)
  with 2 3 4 show ?thesis by blast
qed

text \<open>
  An exception of \<open>ZipFile(...)\<close> other than \<open>BadZipFile\<close> leaves the fetcher: no
  \<open>except\<close> clause is for it.
\<close>

lemma fetch_reader_raises:
  assumes "http_get w url = Response status body" "\<not> raise_for_status status"
    and "zip_parse w body = Inl x" "x \<noteq> BadZipFile"
  shows "download_and_unzip_data w url =
           ([Print (MsgDownloading url), HttpGet url], Inl (ZipError x))"
  using assms by (simp add: download_and_unzip_data_def)

text \<open>
  So does an exception of \<open>open\<close>; when \<open>open\<close> raises \<open>BadZipFile\<close>, the clause
  for it returns the empty list, whatever was collected before.
\<close>

lemma scan_members_open_raises:
  assumes "\<forall>m \<in> set before. \<not> is_target (filename m)"
    and "is_target (filename m)" "zip_open zf (filename m) = Inl x"
  shows "scan_members zf (before @ m # rest) (evs, acc) =
           (evs @ [Print (MsgFound (filename m))], Inl x)"
  using assms by (induction before) simp_all

lemma fetch_open_raises:
  assumes "http_get w url = Response status body" "\<not> raise_for_status status"
    and "zip_parse w body = Inr (before @ m # rest)"
    and "\<forall>m \<in> set before. \<not> is_target (filename m)"
    and "is_target (filename m)" "zip_open (before @ m # rest) (filename m) = Inl x"
  shows "download_and_unzip_data w url =
           (if x = BadZipFile
            then ([Print (MsgDownloading url), HttpGet url, Print (MsgFound (filename m)),
                   Print MsgBadZip], Inr [])
            else ([Print (MsgDownloading url), HttpGet url, Print (MsgFound (filename m))],
                  Inl (ZipError x)))"
  using assms(1-3) scan_members_open_raises[OF assms(4-6), of rest "[]" "[]"]
  by (simp add: download_and_unzip_data_def)

text \<open>
  C5, as the code has it: for an archive that the reader accepts and whose
  matching members can all be opened, the fetcher returns one handle for each
  member whose name contains \<open>ProductOverview\<close> and ends with \<open>.csv\<close>, opened by
  that member's name, in the order of the archive's listing, and none for any
  other member: with \<open>N\<close> matching members among \<open>N + M\<close> it returns exactly \<open>N\<close>
  handles. Where the member names of the archive are distinct, the handles are
  the matching members themselves, one for each.
\<close>

theorem fetcher_matching:
  assumes get: "http_get w url = Response status body"
    and ok: "\<not> raise_for_status status"
    and zip: "zip_parse w body = Inr zf"
    and opens: "\<forall>m \<in> set zf. is_target (filename m) \<longrightarrow> open_raises m = None"
    and N: "N = length (filter (\<lambda>m. is_target (filename m)) zf)"
    and M: "M = length (filter (\<lambda>m. \<not> is_target (filename m)) zf)"
  shows "\<exists>files. snd (download_and_unzip_data w url) = Inr files
     \<and> length files = N \<and> N + M = length zf
     \<and> map filename files = map filename (filter (\<lambda>m. is_target (filename m)) zf)
     \<and> (\<forall>f \<in> set files. f \<in> set zf \<and> is_target (filename f))
     \<and> (distinct (map filename zf) \<longrightarrow> files = filter (\<lambda>m. is_target (filename m)) zf)
     \<and> (\<forall>name. is_target name \<longleftrightarrow>
           (\<exists>pre post. name = pre @ ''ProductOverview'' @ post) \<and> (\<exists>stem. name = stem @ ''.csv''))"
proof -
  from fetch_archive[OF get ok zip opens] obtain fs where
    1: "snd (download_and_unzip_data w url) = Inr fs"
    and 2: "map filename fs = map filename (filter (\<lambda>m. is_target (filename m)) zf)"
    and 3: "set fs \<subseteq> set zf"
    and 4: "distinct (map filename zf) \<longrightarrow> fs = filter (\<lambda>m. is_target (filename m)) zf"
    by auto
  from 2 have len: "length fs = N" unfolding N by (metis length_map)
  have sum: "N + M = length zf" unfolding N M by (rule sum_length_filter_compl)
  have tgt: "\<forall>f \<in> set fs. f \<in> set zf \<and> is_target (filename f)"
  proof
    fix f assume f: "f \<in> set fs"
    then have "filename f \<in> set (map filename fs)" by simp
    then have "filename f \<in> set (map filename (filter (\<lambda>m. is_target (filename m)) zf))"
      by (simp only: 2)
    then have "is_target (filename f)" by auto
    with f 3 show "f \<in> set zf \<and> is_target (filename f)" by auto
  qed
  from 1 len sum 2 tgt 4 is_target_iff show ?thesis by blast
qed

theorem fetcher_matching_witness:
  "\<exists>files.
     snd (download_and_unzip_data
            \<lparr>env_url = Some ''https://x.supabase.co'',
         env_key = Some ''eyJhbGciOiJIUzI1NiJ9.eyJyb2xlIjoic2VydmljZV9yb2xlIn0.c2ln'',
         http_get = (\<lambda>u. Response 200 ''PK''),
         zip_parse = (\<lambda>b. Inr
               [\<lparr>filename = ''DSLD/ProductOverview_1.csv'', content = ''a'', open_raises = None\<rparr>,
                \<lparr>filename = ''Ingredients.csv'', content = ''b'', open_raises = None\<rparr>,
                \<lparr>filename = ''ProductOverview_2.txt'', content = ''c'', open_raises = None\<rparr>,
                \<lparr>filename = ''ProductOverview_2.csv'', content = ''d'', open_raises = None\<rparr>]),
         read_csv = (\<lambda>b. Inl ''unused''),
         concat_float64 = (\<lambda>dfs c. False),
         create_client = (\<lambda>u k. Inr ()),
         upsert = (\<lambda>s t c b. (s, Returned True))\<rparr>
            DOWNLOAD_URL) = Inr files
     \<and> \<not> raise_for_status 200
     \<and> length files = 2
     \<and> files = [\<lparr>filename = ''DSLD/ProductOverview_1.csv'', content = ''a'', open_raises = None\<rparr>,
                \<lparr>filename = ''ProductOverview_2.csv'', content = ''d'', open_raises = None\<rparr>]"
proof -
  define zf where "zf =
               [\<lparr>filename = ''DSLD/ProductOverview_1.csv'', content = ''a'', open_raises = None\<rparr>,
                \<lparr>filename = ''Ingredients.csv'', content = ''b'', open_raises = None\<rparr>,
                \<lparr>filename = ''ProductOverview_2.txt'', content = ''c'', open_raises = None\<rparr>,
                \<lparr>filename = ''ProductOverview_2.csv'', content = ''d'', open_raises = None\<rparr>]"
  define w :: "unit world" where "w =
            \<lparr>env_url = Some ''https://x.supabase.co'',
         env_key = Some ''eyJhbGciOiJIUzI1NiJ9.eyJyb2xlIjoic2VydmljZV9yb2xlIn0.c2ln'',
         http_get = (\<lambda>u. Response 200 ''PK''),
         zip_parse = (\<lambda>b. Inr zf),
         read_csv = (\<lambda>b. Inl ''unused''),
         concat_float64 = (\<lambda>dfs c. False),
         create_client = (\<lambda>u k. Inr ()),
         upsert = (\<lambda>s t c b. (s, Returned True))\<rparr>"
  have get: "http_get w DOWNLOAD_URL = Response 200 ''PK''" by (simp add: w_def)
  have ok: "\<not> raise_for_status 200" by (simp add: raise_for_status_def)
  have zip: "zip_parse w ''PK'' = Inr zf" by (simp add: w_def)
  have opens: "\<forall>m \<in> set zf. is_target (filename m) \<longrightarrow> open_raises m = None"
    by (simp add: zf_def)
  have flt: "filter (\<lambda>m. is_target (filename m)) zf =
      [\<lparr>filename = ''DSLD/ProductOverview_1.csv'', content = ''a'', open_raises = None\<rparr>,
                \<lparr>filename = ''ProductOverview_2.csv'', content = ''d'', open_raises = None\<rparr>]"
    by (simp add: zf_def is_target_def TARGET_FILENAME_CONTAINS_def sublist_code(3) suffix_to_prefix)
  have dist: "distinct (map filename zf)" by (simp add: zf_def)
  from fetcher_matching[OF get ok zip opens refl refl] obtain files where
    1: "snd (download_and_unzip_data w DOWNLOAD_URL) = Inr files"
    and 2: "length files = length (filter (\<lambda>m. is_target (filename m)) zf)"
    and 3: "distinct (map filename zf) \<longrightarrow> files = filter (\<lambda>m. is_target (filename m)) zf"
    by blast
  from 2 flt have len: "length files = 2" by simp
  from 3 dist flt have fs: "files = [\<lparr>filename = ''DSLD/ProductOverview_1.csv'', content = ''a'', open_raises = None\<rparr>,
                \<lparr>filename = ''ProductOverview_2.csv'', content = ''d'', open_raises = None\<rparr>]" by simp
  show ?thesis
    apply (rule exI[of _ files])
    apply (intro conjI)
       apply (rule 1[unfolded w_def zf_def])
      apply (rule ok)
     apply (rule len)
    apply (rule fs)
    done
qed

text \<open>
  C5 as the spec states it fails in two ways. Two matching members of one name
  give two handles, and both read the later member: the earlier one has no
  handle. And a matching member that is encrypted gives no handle at all: its
  \<open>open\<close> raises, and the exception leaves the fetcher.
\<close>

theorem fetcher_matching_counterexample:
  "snd (download_and_unzip_data
         \<lparr>env_url = Some ''https://x.supabase.co'',
         env_key = Some ''eyJhbGciOiJIUzI1NiJ9.eyJyb2xlIjoic2VydmljZV9yb2xlIn0.c2ln'',
         http_get = (\<lambda>u. Response 200 ''PK''),
         zip_parse = (\<lambda>b. Inr
           [\<lparr>filename = ''ProductOverview_1.csv'', content = ''first'', open_raises = None\<rparr>,
            \<lparr>filename = ''ProductOverview_1.csv'', content = ''second'', open_raises = None\<rparr>]),
         read_csv = (\<lambda>b. Inl ''unused''),
         concat_float64 = (\<lambda>dfs c. False),
         create_client = (\<lambda>u k. Inr ()),
         upsert = (\<lambda>s t c b. (s, Returned True))\<rparr>
         DOWNLOAD_URL)
     = Inr [\<lparr>filename = ''ProductOverview_1.csv'', content = ''second'', open_raises = None\<rparr>,
            \<lparr>filename = ''ProductOverview_1.csv'', content = ''second'', open_raises = None\<rparr>]
   \<and> snd (download_and_unzip_data
         \<lparr>env_url = Some ''https://x.supabase.co'',
         env_key = Some ''eyJhbGciOiJIUzI1NiJ9.eyJyb2xlIjoic2VydmljZV9yb2xlIn0.c2ln'',
         http_get = (\<lambda>u. Response 200 ''PK''),
         zip_parse = (\<lambda>b. Inr
           [\<lparr>filename = ''ProductOverview_1.csv'', content = ''x'', open_raises = Some (ZipRaised ''RuntimeError'')\<rparr>]),
         read_csv = (\<lambda>b. Inl ''unused''),
         concat_float64 = (\<lambda>dfs c. False),
         create_client = (\<lambda>u k. Inr ()),
         upsert = (\<lambda>s t c b. (s, Returned True))\<rparr>
         DOWNLOAD_URL)
     = Inl (ZipError (ZipRaised ''RuntimeError''))"
  by (simp add: download_and_unzip_data_def raise_for_status_def zip_open_def
        is_target_def TARGET_FILENAME_CONTAINS_def sublist_code(3) suffix_to_prefix)

section \<open>Nothing to fetch, nothing to do\<close>

lemma main_no_files:
  assumes "download_and_unzip_data w DOWNLOAD_URL = (evs1, Inr [])"
  shows "main w url key = (evs1 @ [Print MsgNoFilesFinish], Completed)"
  using assms by (simp add: main_def)

text \<open>
  C6, as the code has it: when the download fails (a transport error or a 4xx
  or 5xx status), when the archive reader rejects the payload with
  \<open>BadZipFile\<close>, or when no member of the archive matches, the fetcher returns
  the empty list and raises nothing; the orchestrator then reads no CSV,
  creates no client and makes no upsert call, prints that it found no files
  and returns normally.
\<close>

theorem fetch_failure_is_no_data:
  assumes fail:
    "(\<exists>e. http_get w DOWNLOAD_URL = RequestFailed e)
     \<or> (\<exists>status body. http_get w DOWNLOAD_URL = Response status body
           \<and> (raise_for_status status
                \<or> zip_parse w body = Inl BadZipFile
                \<or> (\<exists>zf. zip_parse w body = Inr zf \<and> (\<forall>m \<in> set zf. \<not> is_target (filename m)))))"
  shows "snd (download_and_unzip_data w DOWNLOAD_URL) = Inr []
     \<and> (\<exists>evs. main w url key = (evs, Completed)
            \<and> last evs = Print MsgNoFilesFinish
            \<and> (\<forall>ev \<in> set evs. (\<exists>m. ev = Print m) \<or> ev = HttpGet DOWNLOAD_URL))"
proof -
  have "\<exists>evs1. download_and_unzip_data w DOWNLOAD_URL = (evs1, Inr [])
          \<and> (\<forall>ev \<in> set evs1. (\<exists>m. ev = Print m) \<or> ev = HttpGet DOWNLOAD_URL)"
    using fail
  proof (elim disjE exE conjE)
    fix e assume "http_get w DOWNLOAD_URL = RequestFailed e"
    then show ?thesis by (simp add: download_and_unzip_data_def)
  next
    fix status body
    assume "http_get w DOWNLOAD_URL = Response status body" "raise_for_status status"
    then show ?thesis by (simp add: download_and_unzip_data_def)
  next
    fix status body
    assume "http_get w DOWNLOAD_URL = Response status body" "zip_parse w body = Inl BadZipFile"
    then show ?thesis by (simp add: download_and_unzip_data_def Let_def)
  next
    fix status body zf
    assume get: "http_get w DOWNLOAD_URL = Response status body"
      and zip: "zip_parse w body = Inr zf"
      and none: "\<forall>m \<in> set zf. \<not> is_target (filename m)"
    show ?thesis
    proof (cases "raise_for_status status")
      case True
      with get show ?thesis by (simp add: download_and_unzip_data_def)
    next
      case False
      from none have flt: "filter (\<lambda>m. is_target (filename m)) zf = []" by simp
      from none have opens: "\<forall>m \<in> set zf. is_target (filename m) \<longrightarrow> open_raises m = None"
        by simp
      from fetch_archive[OF get False zip opens] flt obtain fs where
        1: "download_and_unzip_data w DOWNLOAD_URL =
             ([Print (MsgDownloading DOWNLOAD_URL), HttpGet DOWNLOAD_URL]
                @ (if fs = [] then [Print MsgNoFiles] else []), Inr fs)"
        and 2: "map filename fs = []"
        by auto
      from 2 have "fs = []" by simp
      with 1 show ?thesis by simp
    qed
  qed
  then obtain evs1 where 1: "download_and_unzip_data w DOWNLOAD_URL = (evs1, Inr [])"
    and 2: "\<forall>ev \<in> set evs1. (\<exists>m. ev = Print m) \<or> ev = HttpGet DOWNLOAD_URL"
    by blast
  from main_no_files[OF 1] have m: "main w url key = (evs1 @ [Print MsgNoFilesFinish], Completed)" .
  have "\<forall>ev \<in> set (evs1 @ [Print MsgNoFilesFinish]). (\<exists>m. ev = Print m) \<or> ev = HttpGet DOWNLOAD_URL"
    using 2 by auto
  with 1 m show ?thesis by simp
qed

theorem fetch_failure_is_no_data_witness:
  "main \<lparr>env_url = Some ''https://x.supabase.co'',
          env_key = Some ''eyJhbGciOiJIUzI1NiJ9.eyJyb2xlIjoic2VydmljZV9yb2xlIn0.c2ln'',
          http_get = (\<lambda>u. Response 404 ''Not Found''),
          zip_parse = (\<lambda>b. Inl BadZipFile),
          read_csv = (\<lambda>b. Inl ''unused''),
          concat_float64 = (\<lambda>dfs c. False),
          create_client = (\<lambda>u k. Inr ()),
          upsert = (\<lambda>s t c b. (s, Returned True))\<rparr>
     ''https://x.supabase.co''
     ''eyJhbGciOiJIUzI1NiJ9.eyJyb2xlIjoic2VydmljZV9yb2xlIn0.c2ln''
     = ([Print (MsgDownloading DOWNLOAD_URL), HttpGet DOWNLOAD_URL,
         Print (MsgDownloadError (HTTPError 404)), Print MsgNoFilesFinish], Completed)
   \<and> raise_for_status 404
   \<and> snd (download_and_unzip_data
        \<lparr>env_url = Some ''https://x.supabase.co'',
          env_key = Some ''eyJhbGciOiJIUzI1NiJ9.eyJyb2xlIjoic2VydmljZV9yb2xlIn0.c2ln'',
          http_get = (\<lambda>u. Response 200 ''PK''),
          zip_parse = (\<lambda>b. Inr [\<lparr>filename = ''Ingredients.csv'', content = ''b'', open_raises = None\<rparr>]),
          read_csv = (\<lambda>b. Inl ''unused''),
          concat_float64 = (\<lambda>dfs c. False),
          create_client = (\<lambda>u k. Inr ()),
          upsert = (\<lambda>s t c b. (s, Returned True))\<rparr>
        DOWNLOAD_URL) = Inr []"
proof -
  define w1 :: "unit world" where "w1 =
         \<lparr>env_url = Some ''https://x.supabase.co'',
          env_key = Some ''eyJhbGciOiJIUzI1NiJ9.eyJyb2xlIjoic2VydmljZV9yb2xlIn0.c2ln'',
          http_get = (\<lambda>u. Response 404 ''Not Found''),
          zip_parse = (\<lambda>b. Inl BadZipFile),
          read_csv = (\<lambda>b. Inl ''unused''),
          concat_float64 = (\<lambda>dfs c. False),
          create_client = (\<lambda>u k. Inr ()),
          upsert = (\<lambda>s t c b. (s, Returned True))\<rparr>"
  define w2 :: "unit world" where "w2 =
         \<lparr>env_url = Some ''https://x.supabase.co'',
          env_key = Some ''eyJhbGciOiJIUzI1NiJ9.eyJyb2xlIjoic2VydmljZV9yb2xlIn0.c2ln'',
          http_get = (\<lambda>u. Response 200 ''PK''),
          zip_parse = (\<lambda>b. Inr [\<lparr>filename = ''Ingredients.csv'', content = ''b'', open_raises = None\<rparr>]),
          read_csv = (\<lambda>b. Inl ''unused''),
          concat_float64 = (\<lambda>dfs c. False),
          create_client = (\<lambda>u k. Inr ()),
          upsert = (\<lambda>s t c b. (s, Returned True))\<rparr>"
  have bad: "raise_for_status 404" by (simp add: raise_for_status_def)
  have f1: "(\<exists>e. http_get w1 DOWNLOAD_URL = RequestFailed e)
     \<or> (\<exists>status body. http_get w1 DOWNLOAD_URL = Response status body
           \<and> (raise_for_status status
                \<or> zip_parse w1 body = Inl BadZipFile
                \<or> (\<exists>zf. zip_parse w1 body = Inr zf \<and> (\<forall>m \<in> set zf. \<not> is_target (filename m)))))"
    using bad by (simp add: w1_def)
  have nt: "\<not> is_target ''Ingredients.csv''"
    by (simp add: is_target_def TARGET_FILENAME_CONTAINS_def sublist_code(3) suffix_to_prefix)
  have f2: "(\<exists>e. http_get w2 DOWNLOAD_URL = RequestFailed e)
     \<or> (\<exists>status body. http_get w2 DOWNLOAD_URL = Response status body
           \<and> (raise_for_status status
                \<or> zip_parse w2 body = Inl BadZipFile
                \<or> (\<exists>zf. zip_parse w2 body = Inr zf \<and> (\<forall>m \<in> set zf. \<not> is_target (filename m)))))"
    using nt by (simp add: w2_def)
  from fetch_failure_is_no_data[OF f1, of "''https://x.supabase.co''" "''eyJhbGciOiJIUzI1NiJ9.eyJyb2xlIjoic2VydmljZV9yb2xlIn0.c2ln''"]
  obtain evs where m: "main w1 ''https://x.supabase.co'' ''eyJhbGciOiJIUzI1NiJ9.eyJyb2xlIjoic2VydmljZV9yb2xlIn0.c2ln'' = (evs, Completed)" by blast
  have "main w1 ''https://x.supabase.co'' ''eyJhbGciOiJIUzI1NiJ9.eyJyb2xlIjoic2VydmljZV9yb2xlIn0.c2ln'' = ([Print (MsgDownloading DOWNLOAD_URL), HttpGet DOWNLOAD_URL,
         Print (MsgDownloadError (HTTPError 404)), Print MsgNoFilesFinish], Completed)"
    using m bad by (simp add: main_def download_and_unzip_data_def w1_def)
  moreover from fetch_failure_is_no_data[OF f2, of "''https://x.supabase.co''" "''eyJhbGciOiJIUzI1NiJ9.eyJyb2xlIjoic2VydmljZV9yb2xlIn0.c2ln''"]
  have "snd (download_and_unzip_data w2 DOWNLOAD_URL) = Inr []" by blast
  ultimately show ?thesis using bad unfolding w1_def w2_def by blast
qed

text \<open>
  C6 as the spec states it fails for a payload on which the archive reader
  raises something other than \<open>BadZipFile\<close>, as it does for a member name that
  does not decode: the fetcher lets the exception through, and the run ends
  with a traceback and exit status 1.
\<close>

theorem fetch_failure_is_no_data_counterexample:
  "download_and_unzip_data
     \<lparr>env_url = Some ''https://x.supabase.co'',
          env_key = Some ''eyJhbGciOiJIUzI1NiJ9.eyJyb2xlIjoic2VydmljZV9yb2xlIn0.c2ln'',
          http_get = (\<lambda>u. Response 200 ''PK''),
          zip_parse = (\<lambda>b. Inl (ZipRaised ''UnicodeDecodeError'')),
          read_csv = (\<lambda>b. Inl ''unused''),
          concat_float64 = (\<lambda>dfs c. False),
          create_client = (\<lambda>u k. Inr ()),
          upsert = (\<lambda>s t c b. (s, Returned True))\<rparr>
     DOWNLOAD_URL
     = ([Print (MsgDownloading DOWNLOAD_URL), HttpGet DOWNLOAD_URL],
        Inl (ZipError (ZipRaised ''UnicodeDecodeError'')))
   \<and> main
     \<lparr>env_url = Some ''https://x.supabase.co'',
          env_key = Some ''eyJhbGciOiJIUzI1NiJ9.eyJyb2xlIjoic2VydmljZV9yb2xlIn0.c2ln'',
          http_get = (\<lambda>u. Response 200 ''PK''),
          zip_parse = (\<lambda>b. Inl (ZipRaised ''UnicodeDecodeError'')),
          read_csv = (\<lambda>b. Inl ''unused''),
          concat_float64 = (\<lambda>dfs c. False),
          create_client = (\<lambda>u k. Inr ()),
          upsert = (\<lambda>s t c b. (s, Returned True))\<rparr>
     ''https://x.supabase.co''
     ''eyJhbGciOiJIUzI1NiJ9.eyJyb2xlIjoic2VydmljZV9yb2xlIn0.c2ln''
     = ([Print (MsgDownloading DOWNLOAD_URL), HttpGet DOWNLOAD_URL],
        Traceback (ZipError (ZipRaised ''UnicodeDecodeError'')))
   \<and> exit_status (Traceback (ZipError (ZipRaised ''UnicodeDecodeError''))) = 1"
  by (simp add: main_def download_and_unzip_data_def raise_for_status_def)

section \<open>The orchestrator after a failed upload\<close>

lemma no_upsert_events:
  "\<forall>ev \<in> set evs. \<forall>t c b r. ev \<noteq> Upsert t c b r \<Longrightarrow>
   upsert_replies evs = [] \<and> upsert_calls evs = []"
  by (induction evs rule: upsert_calls.induct) auto

lemma scan_members_events:
  "scan_members zf ms (evs, acc) = (evs', r) \<Longrightarrow> \<exists>ps. evs' = evs @ map Print ps"
proof (induction ms arbitrary: evs acc)
  case Nil
  then show ?case by simp
next
  case (Cons fi rest)
  show ?case
  proof (cases "is_target (filename fi)")
    case False
    with Cons show ?thesis by simp
  next
    case True
    show ?thesis
    proof (cases "zip_open zf (filename fi)")
      case (Inl x)
      with True Cons.prems have "evs' = evs @ map Print [MsgFound (filename fi)]" by simp
      then show ?thesis by blast
    next
      case (Inr f)
      with True Cons.prems
      have "scan_members zf rest (evs @ [Print (MsgFound (filename fi))], acc @ [f]) = (evs', r)"
        by simp
      from Cons.IH[OF this] obtain ps where
        "evs' = (evs @ [Print (MsgFound (filename fi))]) @ map Print ps" ..
      then have "evs' = evs @ map Print (MsgFound (filename fi) # ps)" by simp
      then show ?thesis by blast
    qed
  qed
qed

lemma download_events:
  assumes "download_and_unzip_data w url = (evs, r)"
  shows "\<forall>ev \<in> set evs. (\<exists>m. ev = Print m) \<or> ev = HttpGet url"
proof (cases "http_get w url")
  case (RequestFailed e)
  with assms show ?thesis by (auto simp: download_and_unzip_data_def)
next
  case (Response status body)
  show ?thesis
  proof (cases "raise_for_status status")
    case True
    with Response assms show ?thesis by (auto simp: download_and_unzip_data_def)
  next
    case False
    show ?thesis
    proof (cases "zip_parse w body")
      case (Inl x)
      with False Response assms show ?thesis
        by (auto simp: download_and_unzip_data_def Let_def split: if_splits)
    next
      case (Inr zf)
      obtain sevs sr where sc: "scan_members zf zf ([], []) = (sevs, sr)"
        by (cases "scan_members zf zf ([], [])")
      from scan_members_events[OF sc] obtain ps where ps: "sevs = map Print ps" by auto
      from assms Response False Inr sc
      have "set evs \<subseteq> {Print (MsgDownloading url), HttpGet url, Print MsgNoFiles,
                       Print MsgBadZip} \<union> set sevs"
        by (auto simp: download_and_unzip_data_def Let_def split: sum.splits if_splits)
      with ps show ?thesis by auto
    qed
  qed
qed

lemma read_all_events:
  "read_all rc fs = (evs, r) \<Longrightarrow> \<forall>ev \<in> set evs. \<exists>n. ev = ReadCsv n"
proof (induction fs arbitrary: evs r)
  case Nil
  then show ?case by simp
next
  case (Cons f fs)
  show ?case
  proof (cases "rc (content f)")
    case (Inl e)
    with Cons.prems show ?thesis by auto
  next
    case (Inr df)
    obtain evs2 r2 where rec: "read_all rc fs = (evs2, r2)" by (cases "read_all rc fs")
    with Inr Cons.prems have "evs = ReadCsv (filename f) # evs2"
      by (auto split: sum.splits)
    with Cons.IH[OF rec] show ?thesis by auto
  qed
qed

lemma combine_events:
  assumes "combine_csvs_to_dataframe w fs = (evs, r)"
  shows "\<forall>ev \<in> set evs. (\<exists>m. ev = Print m) \<or> (\<exists>n. ev = ReadCsv n)"
proof (cases "fs = []")
  case True
  with assms show ?thesis by (simp add: combine_csvs_to_dataframe_def)
next
  case False
  obtain evs2 r2 where rd: "read_all (read_csv w) fs = (evs2, r2)"
    by (cases "read_all (read_csv w) fs")
  from assms False rd have "set evs \<subseteq> range Print \<union> set evs2"
    by (auto simp: combine_csvs_to_dataframe_def Let_def split: sum.splits)
  with read_all_events[OF rd] show ?thesis by auto
qed

lemma writer_raise_shape:
  assumes run: "upload_dataframe_to_supabase h df ups s = (h', s', evs)"
    and raised: "Raised e \<in> set (upsert_replies evs)"
  shows "\<exists>pre b. evs = pre @ [Upsert table_name on_conflict b (Raised e), Print (MsgUploadError e)]"
proof -
  have nonempty: "\<not> df_empty (h ! df)"
  proof
    assume "df_empty (h ! df)"
    from writer_empty[OF this, of ups s] run have "evs = [Print MsgEmpty]" by simp
    with raised show False by simp
  qed
  obtain s1 evs1 r where
    loop: "upload_loop ups s (to_dict_records (replace_table null_mapping (h ! df))) 0 = (s1, evs1, r)"
    by (cases "upload_loop ups s (to_dict_records (replace_table null_mapping (h ! df))) 0")
  from writer_nonempty[OF nonempty loop] run
  have evs: "evs = [Print MsgPreparing] @ evs1
              @ [Print (case r of None \<Rightarrow> MsgAllOk | Some e \<Rightarrow> MsgUploadError e)]"
    by simp
  then have reps: "upsert_replies evs = upsert_replies evs1"
    by (simp add: upsert_replies_append)
  obtain e' where r: "r = Some e'"
  proof (cases r)
    case None
    with upload_loop_replies[OF loop] raised reps show ?thesis by auto
  qed
  from upload_loop_replies[OF loop] r have
    ne: "upsert_replies evs1 \<noteq> []" and
    lastr: "last (upsert_replies evs1) = Raised e'" and
    init: "\<forall>x \<in> set (butlast (upsert_replies evs1)). \<exists>d. x = Returned d" and
    laste: "last evs1 = Upsert table_name on_conflict (last (upsert_calls evs1)) (Raised e')"
    by simp_all
  have "set (upsert_replies evs1) = insert (last (upsert_replies evs1)) (set (butlast (upsert_replies evs1)))"
    using ne by (metis append_butlast_last_id list.simps(15) rotate1.simps(2) set_rotate1)
  with raised reps init lastr have e: "e' = e" by auto
  from ne have "evs1 \<noteq> []" by auto
  then have "evs1 = butlast evs1 @ [last evs1]" by simp
  with laste e have "evs1 = butlast evs1 @ [Upsert table_name on_conflict (last (upsert_calls evs1)) (Raised e)]"
    by simp
  with evs r e show ?thesis
    by (intro exI[of _ "Print MsgPreparing # butlast evs1"] exI[of _ "last (upsert_calls evs1)"]) simp
qed

lemma main_cases:
  assumes "main w url key = (evs, out)"
  shows "(\<exists>x. out = Traceback x \<and> upsert_replies evs = [])
     \<or> (out = Completed \<and> upsert_replies evs = [] \<and> last evs = Print MsgNoFilesFinish)
     \<or> (\<exists>pre h df h' s s' evs3. out = Completed
           \<and> create_client w url key = Inr s
           \<and> upload_dataframe_to_supabase h df (upsert w) s = (h', s', evs3)
           \<and> evs = pre @ evs3 @ [Print MsgFinished]
           \<and> upsert_replies evs = upsert_replies evs3)"
proof -
  obtain evs1 r1 where d: "download_and_unzip_data w DOWNLOAD_URL = (evs1, r1)"
    by (cases "download_and_unzip_data w DOWNLOAD_URL")
  from download_events[OF d] have "\<forall>ev \<in> set evs1. \<forall>t c b r. ev \<noteq> Upsert t c b r" by auto
  from no_upsert_events[OF this] have q1: "upsert_replies evs1 = []" by simp
  show ?thesis
  proof (cases r1)
    case (Inl x)
    with assms d q1 show ?thesis by (auto simp: main_def)
  next
    case (Inr fs)
    show ?thesis
    proof (cases "fs = []")
      case True
      with assms d Inr q1 show ?thesis by (auto simp: main_def upsert_replies_append)
    next
      case False
      obtain evs2 r2 where c: "combine_csvs_to_dataframe w fs = (evs2, r2)"
        by (cases "combine_csvs_to_dataframe w fs")
      from combine_events[OF c] have "\<forall>ev \<in> set evs2. \<forall>t c b r. ev \<noteq> Upsert t c b r" by auto
      from no_upsert_events[OF this] have q2: "upsert_replies evs2 = []" by simp
      show ?thesis
      proof (cases r2)
        case (Inl x)
        with assms d Inr False c q1 q2 show ?thesis
          by (auto simp: main_def upsert_replies_append)
      next
        case r2: (Inr pdf)
        show ?thesis
        proof (cases "create_client w url key")
          case (Inl e)
          with assms d Inr False c r2 q1 q2 show ?thesis
            by (auto simp: main_def upsert_replies_append)
        next
          case cl: (Inr s)
          obtain h' s' evs3 where
            u: "upload_dataframe_to_supabase [pdf] 0 (upsert w) s = (h', s', evs3)"
            by (cases "upload_dataframe_to_supabase [pdf] 0 (upsert w) s")
          from assms d Inr False c r2 cl u
          have out: "out = Completed"
            and evs: "evs = (evs1 @ evs2 @ [CreateClient url key]) @ evs3 @ [Print MsgFinished]"
            by (simp_all add: main_def alloc_def)
          from evs q1 q2 have "upsert_replies evs = upsert_replies evs3"
            by (simp add: upsert_replies_append)
          with out evs u cl show ?thesis by blast
        qed
      qed
    qed
  qed
qed

text \<open>
  When \<open>create_client\<close> raises, on a URL or a key that it does not accept, the
  run ends there with a traceback: nothing is uploaded.
\<close>

lemma main_client_raises:
  assumes "download_and_unzip_data w DOWNLOAD_URL = (evs1, Inr fs)" "fs \<noteq> []"
    and "combine_csvs_to_dataframe w fs = (evs2, Inr df)"
    and "create_client w url key = Inl e"
  shows "main w url key = (evs1 @ evs2 @ [CreateClient url key], Traceback (ClientError e))"
  using assms by (simp add: main_def)

text \<open>
  C3, as the code has it: an upsert call that raises ends the upload, and the
  error is reported with its cause, but the \<open>except\<close> clause of the writer
  catches it. The orchestrator goes on, prints that the script finished and
  returns normally, and the exit status is 0: after the failing call the trace
  holds the report of the error and the closing message, nothing else.
\<close>

theorem remote_error_run_completes:
  assumes run: "main w url key = (evs, out)"
    and raised: "Raised e \<in> set (upsert_replies evs)"
  shows "out = Completed \<and> exit_status out = 0
     \<and> (\<exists>pre b. evs = pre @ [Upsert table_name on_conflict b (Raised e),
                              Print (MsgUploadError e), Print MsgFinished])"
proof -
  from main_cases[OF run] raised obtain pre h df h' s s' evs3 where
    out: "out = Completed"
    and u: "upload_dataframe_to_supabase h df (upsert w) s = (h', s', evs3)"
    and evs: "evs = pre @ evs3 @ [Print MsgFinished]"
    and reps: "upsert_replies evs = upsert_replies evs3"
    by auto
  from raised reps have "Raised e \<in> set (upsert_replies evs3)" by simp
  from writer_raise_shape[OF u this] obtain pre3 b where
    "evs3 = pre3 @ [Upsert table_name on_conflict b (Raised e), Print (MsgUploadError e)]"
    by blast
  with evs have "evs = (pre @ pre3) @ [Upsert table_name on_conflict b (Raised e),
                              Print (MsgUploadError e), Print MsgFinished]"
    by simp
  with out show ?thesis by auto
qed

lemma example_run:
  "main 
      \<lparr>env_url = Some ''https://x.supabase.co'',
       env_key = Some ''eyJhbGciOiJIUzI1NiJ9.eyJyb2xlIjoic2VydmljZV9yb2xlIn0.c2ln'',
       http_get = (\<lambda>u. Response 200 ''PK''),
       zip_parse = (\<lambda>b. Inr [\<lparr>filename = ''ProductOverview_1.csv'', content = ''csv'', open_raises = None\<rparr>]),
       read_csv = (\<lambda>b. Inr \<lparr>columns = [''DSLD ID''], rows = [[IntV 1], [IntV 2]]\<rparr>),
       concat_float64 = (\<lambda>dfs c. False),
       create_client = (\<lambda>u k. if prefix ''https://'' u \<and> k \<noteq> [] then Inr () else Inl ''Invalid URL''),
       upsert = (\<lambda>s t c b. (s, Raised ''boom''))\<rparr>
      ''https://x.supabase.co''
      ''eyJhbGciOiJIUzI1NiJ9.eyJyb2xlIjoic2VydmljZV9yb2xlIn0.c2ln''
   = ([Print (MsgDownloading DOWNLOAD_URL), HttpGet DOWNLOAD_URL,
       Print (MsgFound ''ProductOverview_1.csv''),
       Print MsgCombining, ReadCsv ''ProductOverview_1.csv'', Print (MsgCombined 2),
       CreateClient ''https://x.supabase.co''
         ''eyJhbGciOiJIUzI1NiJ9.eyJyb2xlIjoic2VydmljZV9yb2xlIn0.c2ln'',
       Print MsgPreparing, Print (MsgUploading 1 1 2),
       Upsert table_name on_conflict [[(''DSLD ID'', IntV 1)], [(''DSLD ID'', IntV 2)]] (Raised ''boom''),
       Print (MsgUploadError ''boom''), Print MsgFinished],
      Completed)"
  by (simp add: main_def download_and_unzip_data_def raise_for_status_def zip_open_def
        is_target_def TARGET_FILENAME_CONTAINS_def sublist_code(3) suffix_to_prefix
        combine_csvs_to_dataframe_def pd_concat_def union_columns_def reindex_row_def
        astype_row_def cast_cell_def
        rename_columns_def column_mapping_def alloc_def
        upload_dataframe_to_supabase_def df_empty_def df_replace_def replace_table_def
        to_dict_records_def null_mapping_def replace_cell_def upload_loop.simps batch_size_def
        Let_def)

theorem remote_error_run_completes_witness:
  "Raised ''boom'' \<in> set (upsert_replies (fst (main 
      \<lparr>env_url = Some ''https://x.supabase.co'',
       env_key = Some ''eyJhbGciOiJIUzI1NiJ9.eyJyb2xlIjoic2VydmljZV9yb2xlIn0.c2ln'',
       http_get = (\<lambda>u. Response 200 ''PK''),
       zip_parse = (\<lambda>b. Inr [\<lparr>filename = ''ProductOverview_1.csv'', content = ''csv'', open_raises = None\<rparr>]),
       read_csv = (\<lambda>b. Inr \<lparr>columns = [''DSLD ID''], rows = [[IntV 1], [IntV 2]]\<rparr>),
       concat_float64 = (\<lambda>dfs c. False),
       create_client = (\<lambda>u k. if prefix ''https://'' u \<and> k \<noteq> [] then Inr () else Inl ''Invalid URL''),
       upsert = (\<lambda>s t c b. (s, Raised ''boom''))\<rparr>
      ''https://x.supabase.co''
      ''eyJhbGciOiJIUzI1NiJ9.eyJyb2xlIjoic2VydmljZV9yb2xlIn0.c2ln'')))
   \<and> snd (main 
      \<lparr>env_url = Some ''https://x.supabase.co'',
       env_key = Some ''eyJhbGciOiJIUzI1NiJ9.eyJyb2xlIjoic2VydmljZV9yb2xlIn0.c2ln'',
       http_get = (\<lambda>u. Response 200 ''PK''),
       zip_parse = (\<lambda>b. Inr [\<lparr>filename = ''ProductOverview_1.csv'', content = ''csv'', open_raises = None\<rparr>]),
       read_csv = (\<lambda>b. Inr \<lparr>columns = [''DSLD ID''], rows = [[IntV 1], [IntV 2]]\<rparr>),
       concat_float64 = (\<lambda>dfs c. False),
       create_client = (\<lambda>u k. if prefix ''https://'' u \<and> k \<noteq> [] then Inr () else Inl ''Invalid URL''),
       upsert = (\<lambda>s t c b. (s, Raised ''boom''))\<rparr>
      ''https://x.supabase.co''
      ''eyJhbGciOiJIUzI1NiJ9.eyJyb2xlIjoic2VydmljZV9yb2xlIn0.c2ln'') = Completed
   \<and> exit_status (snd (main 
      \<lparr>env_url = Some ''https://x.supabase.co'',
       env_key = Some ''eyJhbGciOiJIUzI1NiJ9.eyJyb2xlIjoic2VydmljZV9yb2xlIn0.c2ln'',
       http_get = (\<lambda>u. Response 200 ''PK''),
       zip_parse = (\<lambda>b. Inr [\<lparr>filename = ''ProductOverview_1.csv'', content = ''csv'', open_raises = None\<rparr>]),
       read_csv = (\<lambda>b. Inr \<lparr>columns = [''DSLD ID''], rows = [[IntV 1], [IntV 2]]\<rparr>),
       concat_float64 = (\<lambda>dfs c. False),
       create_client = (\<lambda>u k. if prefix ''https://'' u \<and> k \<noteq> [] then Inr () else Inl ''Invalid URL''),
       upsert = (\<lambda>s t c b. (s, Raised ''boom''))\<rparr>
      ''https://x.supabase.co''
      ''eyJhbGciOiJIUzI1NiJ9.eyJyb2xlIjoic2VydmljZV9yb2xlIn0.c2ln'')) = 0
   \<and> last (fst (main 
      \<lparr>env_url = Some ''https://x.supabase.co'',
       env_key = Some ''eyJhbGciOiJIUzI1NiJ9.eyJyb2xlIjoic2VydmljZV9yb2xlIn0.c2ln'',
       http_get = (\<lambda>u. Response 200 ''PK''),
       zip_parse = (\<lambda>b. Inr [\<lparr>filename = ''ProductOverview_1.csv'', content = ''csv'', open_raises = None\<rparr>]),
       read_csv = (\<lambda>b. Inr \<lparr>columns = [''DSLD ID''], rows = [[IntV 1], [IntV 2]]\<rparr>),
       concat_float64 = (\<lambda>dfs c. False),
       create_client = (\<lambda>u k. if prefix ''https://'' u \<and> k \<noteq> [] then Inr () else Inl ''Invalid URL''),
       upsert = (\<lambda>s t c b. (s, Raised ''boom''))\<rparr>
      ''https://x.supabase.co''
      ''eyJhbGciOiJIUzI1NiJ9.eyJyb2xlIjoic2VydmljZV9yb2xlIn0.c2ln'')) = Print MsgFinished"
proof -
  let ?w = "
      \<lparr>env_url = Some ''https://x.supabase.co'',
       env_key = Some ''eyJhbGciOiJIUzI1NiJ9.eyJyb2xlIjoic2VydmljZV9yb2xlIn0.c2ln'',
       http_get = (\<lambda>u. Response 200 ''PK''),
       zip_parse = (\<lambda>b. Inr [\<lparr>filename = ''ProductOverview_1.csv'', content = ''csv'', open_raises = None\<rparr>]),
       read_csv = (\<lambda>b. Inr \<lparr>columns = [''DSLD ID''], rows = [[IntV 1], [IntV 2]]\<rparr>),
       concat_float64 = (\<lambda>dfs c. False),
       create_client = (\<lambda>u k. if prefix ''https://'' u \<and> k \<noteq> [] then Inr () else Inl ''Invalid URL''),
       upsert = (\<lambda>s t c b. (s, Raised ''boom''))\<rparr> :: unit world"
  obtain evs out where run: "main ?w ''https://x.supabase.co''
      ''eyJhbGciOiJIUzI1NiJ9.eyJyb2xlIjoic2VydmljZV9yb2xlIn0.c2ln'' = (evs, out)"
    by (cases "main ?w ''https://x.supabase.co''
      ''eyJhbGciOiJIUzI1NiJ9.eyJyb2xlIjoic2VydmljZV9yb2xlIn0.c2ln''")
  with example_run have raised: "Raised ''boom'' \<in> set (upsert_replies evs)" by auto
  from remote_error_run_completes[OF run raised] run raised
  show ?thesis by auto
qed

text \<open>
  C3 as the spec states it fails: here the client is created, the only upsert
  call raises, and the run ends as a run without error does, returning
  normally with exit status 0.
\<close>

theorem remote_error_fatal_counterexample:
  "upsert_replies (fst (main 
      \<lparr>env_url = Some ''https://x.supabase.co'',
       env_key = Some ''eyJhbGciOiJIUzI1NiJ9.eyJyb2xlIjoic2VydmljZV9yb2xlIn0.c2ln'',
       http_get = (\<lambda>u. Response 200 ''PK''),
       zip_parse = (\<lambda>b. Inr [\<lparr>filename = ''ProductOverview_1.csv'', content = ''csv'', open_raises = None\<rparr>]),
       read_csv = (\<lambda>b. Inr \<lparr>columns = [''DSLD ID''], rows = [[IntV 1], [IntV 2]]\<rparr>),
       concat_float64 = (\<lambda>dfs c. False),
       create_client = (\<lambda>u k. if prefix ''https://'' u \<and> k \<noteq> [] then Inr () else Inl ''Invalid URL''),
       upsert = (\<lambda>s t c b. (s, Raised ''boom''))\<rparr>
      ''https://x.supabase.co''
      ''eyJhbGciOiJIUzI1NiJ9.eyJyb2xlIjoic2VydmljZV9yb2xlIn0.c2ln'')) = [Raised ''boom'']
   \<and> snd (main 
      \<lparr>env_url = Some ''https://x.supabase.co'',
       env_key = Some ''eyJhbGciOiJIUzI1NiJ9.eyJyb2xlIjoic2VydmljZV9yb2xlIn0.c2ln'',
       http_get = (\<lambda>u. Response 200 ''PK''),
       zip_parse = (\<lambda>b. Inr [\<lparr>filename = ''ProductOverview_1.csv'', content = ''csv'', open_raises = None\<rparr>]),
       read_csv = (\<lambda>b. Inr \<lparr>columns = [''DSLD ID''], rows = [[IntV 1], [IntV 2]]\<rparr>),
       concat_float64 = (\<lambda>dfs c. False),
       create_client = (\<lambda>u k. if prefix ''https://'' u \<and> k \<noteq> [] then Inr () else Inl ''Invalid URL''),
       upsert = (\<lambda>s t c b. (s, Raised ''boom''))\<rparr>
      ''https://x.supabase.co''
      ''eyJhbGciOiJIUzI1NiJ9.eyJyb2xlIjoic2VydmljZV9yb2xlIn0.c2ln'') = Completed
   \<and> exit_status (snd (main 
      \<lparr>env_url = Some ''https://x.supabase.co'',
       env_key = Some ''eyJhbGciOiJIUzI1NiJ9.eyJyb2xlIjoic2VydmljZV9yb2xlIn0.c2ln'',
       http_get = (\<lambda>u. Response 200 ''PK''),
       zip_parse = (\<lambda>b. Inr [\<lparr>filename = ''ProductOverview_1.csv'', content = ''csv'', open_raises = None\<rparr>]),
       read_csv = (\<lambda>b. Inr \<lparr>columns = [''DSLD ID''], rows = [[IntV 1], [IntV 2]]\<rparr>),
       concat_float64 = (\<lambda>dfs c. False),
       create_client = (\<lambda>u k. if prefix ''https://'' u \<and> k \<noteq> [] then Inr () else Inl ''Invalid URL''),
       upsert = (\<lambda>s t c b. (s, Raised ''boom''))\<rparr>
      ''https://x.supabase.co''
      ''eyJhbGciOiJIUzI1NiJ9.eyJyb2xlIjoic2VydmljZV9yb2xlIn0.c2ln'')) = 0
   \<and> last (fst (main 
      \<lparr>env_url = Some ''https://x.supabase.co'',
       env_key = Some ''eyJhbGciOiJIUzI1NiJ9.eyJyb2xlIjoic2VydmljZV9yb2xlIn0.c2ln'',
       http_get = (\<lambda>u. Response 200 ''PK''),
       zip_parse = (\<lambda>b. Inr [\<lparr>filename = ''ProductOverview_1.csv'', content = ''csv'', open_raises = None\<rparr>]),
       read_csv = (\<lambda>b. Inr \<lparr>columns = [''DSLD ID''], rows = [[IntV 1], [IntV 2]]\<rparr>),
       concat_float64 = (\<lambda>dfs c. False),
       create_client = (\<lambda>u k. if prefix ''https://'' u \<and> k \<noteq> [] then Inr () else Inl ''Invalid URL''),
       upsert = (\<lambda>s t c b. (s, Raised ''boom''))\<rparr>
      ''https://x.supabase.co''
      ''eyJhbGciOiJIUzI1NiJ9.eyJyb2xlIjoic2VydmljZV9yb2xlIn0.c2ln'')) = Print MsgFinished"
  unfolding example_run by simp

section \<open>The configuration guard\<close>

text \<open>
  C4, as the code has it: when the store URL or the store key is absent from
  the environment, or empty, the program prints the diagnostic and stops at
  once through \<open>exit()\<close>, which is given no code: the exit status is 0. Nothing
  else happens in the run: no download, no parse, no client, no upsert.
\<close>

theorem missing_config_halts:
  assumes "env_url w = None \<or> env_url w = Some [] \<or> env_key w = None \<or> env_key w = Some []"
  shows "program w = ([Print MsgConfigError], SystemExit None)
     \<and> exit_status (snd (program w)) = 0
     \<and> (\<forall>ev \<in> set (fst (program w)). \<not> is_work ev)"
proof -
  have "program w = ([Print MsgConfigError], SystemExit None)"
    using assms by (auto simp: program_def split: option.splits)
  then show ?thesis by simp
qed


theorem missing_config_halts_witness:
  "env_url 
           \<lparr>env_url = None,
            env_key = Some ''eyJhbGciOiJIUzI1NiJ9.eyJyb2xlIjoic2VydmljZV9yb2xlIn0.c2ln'',
            http_get = (\<lambda>u. Response 200 ''PK''),
            zip_parse = (\<lambda>b. Inl BadZipFile),
            read_csv = (\<lambda>b. Inl ''unused''),
            concat_float64 = (\<lambda>dfs c. False),
            create_client = (\<lambda>u k. Inr ()),
            upsert = (\<lambda>s t c b. (s, Returned True))\<rparr> = None
   \<and> program 
           \<lparr>env_url = None,
            env_key = Some ''eyJhbGciOiJIUzI1NiJ9.eyJyb2xlIjoic2VydmljZV9yb2xlIn0.c2ln'',
            http_get = (\<lambda>u. Response 200 ''PK''),
            zip_parse = (\<lambda>b. Inl BadZipFile),
            read_csv = (\<lambda>b. Inl ''unused''),
            concat_float64 = (\<lambda>dfs c. False),
            create_client = (\<lambda>u k. Inr ()),
            upsert = (\<lambda>s t c b. (s, Returned True))\<rparr> = ([Print MsgConfigError], SystemExit None)"
proof -
  define w :: "unit world" where "w = 
           \<lparr>env_url = None,
            env_key = Some ''eyJhbGciOiJIUzI1NiJ9.eyJyb2xlIjoic2VydmljZV9yb2xlIn0.c2ln'',
            http_get = (\<lambda>u. Response 200 ''PK''),
            zip_parse = (\<lambda>b. Inl BadZipFile),
            read_csv = (\<lambda>b. Inl ''unused''),
            concat_float64 = (\<lambda>dfs c. False),
            create_client = (\<lambda>u k. Inr ()),
            upsert = (\<lambda>s t c b. (s, Returned True))\<rparr>"
  have a: "env_url w = None" by (simp add: w_def)
  then have "env_url w = None \<or> env_url w = Some [] \<or> env_key w = None \<or> env_key w = Some []"
    by simp
  from missing_config_halts[OF this] have "program w = ([Print MsgConfigError], SystemExit None)"
    by simp
  with a show ?thesis unfolding w_def by (rule conjI)
qed

text \<open>
  C4 as the spec states it fails in the status: with the key missing the run
  stops before any work, and its exit status is 0, not a non-zero one.
\<close>

theorem missing_config_status_counterexample:
  "exit_status (snd (program 
           \<lparr>env_url = Some ''https://x.supabase.co'',
            env_key = None,
            http_get = (\<lambda>u. Response 200 ''PK''),
            zip_parse = (\<lambda>b. Inl BadZipFile),
            read_csv = (\<lambda>b. Inl ''unused''),
            concat_float64 = (\<lambda>dfs c. False),
            create_client = (\<lambda>u k. Inr ()),
            upsert = (\<lambda>s t c b. (s, Returned True))\<rparr>)) = 0
   \<and> fst (program 
           \<lparr>env_url = Some ''https://x.supabase.co'',
            env_key = None,
            http_get = (\<lambda>u. Response 200 ''PK''),
            zip_parse = (\<lambda>b. Inl BadZipFile),
            read_csv = (\<lambda>b. Inl ''unused''),
            concat_float64 = (\<lambda>dfs c. False),
            create_client = (\<lambda>u k. Inr ()),
            upsert = (\<lambda>s t c b. (s, Returned True))\<rparr>) = [Print MsgConfigError]"
  by (simp add: program_def)

section \<open>What the builder returns\<close>









declare bit_length.simps [simp del]











end
